theory Spec2Isabelle
  imports Complex_Main
begin

section \<open>The CTC downstream expert (downstream/ctc/expert.py)\<close>

text \<open>
  A shallow embedding of \<^verbatim>\<open>DownstreamExpert\<close>: its constructor, \<^verbatim>\<open>forward\<close> and
  \<^verbatim>\<open>log_records\<close>. The collaborators the file imports (the tokenizer, the linear
  projection, the sequence models, the CTC loss, the metric functions, the tensor
  reductions) are parameters of the model, gathered in the record \<open>framework\<close> and in
  the fields of the expert; their constructors and their calls may raise, so each returns
  an error or a result. Every exception the file itself can raise (a missing key, an
  index out of range, a name that \<^verbatim>\<open>eval\<close> cannot resolve, a zero step of \<^verbatim>\<open>range\<close>) is a
  value of \<open>py_error\<close>; a call returns the mutated state together with either the error
  or its result, since a Python exception leaves earlier mutations in place.
\<close>

subsection \<open>Python values, errors and dictionaries\<close>

datatype py_error = IndexError | KeyError | ValueError | NameError | TypeError | RuntimeError

text \<open>The values \<^verbatim>\<open>forward\<close> stores in the records: floats (the loss, the metrics) and
  strings (hypothesis, groundtruth, filename).\<close>

datatype pyval = Num real | Txt string

fun is_num :: "pyval \<Rightarrow> bool" where
  "is_num (Num x) = True"
| "is_num (Txt s) = False"

text \<open>
  The records accumulator is a dictionary from names to lists, in insertion order.
  The caller chooses whether it is a plain \<^verbatim>\<open>dict\<close> or a \<^verbatim>\<open>defaultdict(list)\<close>;
  \<open>default_factory\<close> tells which. Reading a missing key of a plain dictionary raises
  \<^verbatim>\<open>KeyError\<close>; a \<^verbatim>\<open>defaultdict(list)\<close> inserts an empty list at the end and returns it.
\<close>

record records =
  entries :: "(string \<times> pyval list) list"
  default_factory :: bool

definition getitem :: "records \<Rightarrow> string \<Rightarrow> py_error + (pyval list \<times> records)" where
  "getitem r k =
     (case map_of (entries r) k of
        Some vs \<Rightarrow> Inr (vs, r)
      | None \<Rightarrow>
          if default_factory r then Inr ([], r\<lparr>entries := entries r @ [(k, [])]\<rparr>)
          else Inl KeyError)"

definition lookup :: "records \<Rightarrow> string \<Rightarrow> py_error + pyval list" where
  "lookup r k = (case getitem r k of Inl err \<Rightarrow> Inl err | Inr (vs, r') \<Rightarrow> Inr vs)"

definition nth_err :: "'a list \<Rightarrow> nat \<Rightarrow> py_error + 'a" where
  "nth_err xs i = (if i < length xs then Inr (xs ! i) else Inl IndexError)"

subsection \<open>The expert and its collaborators\<close>

text \<open>A tensor of three dimensions (batch, time, class), as the sequence model returns it.\<close>

record tensor3 =
  dim0 :: nat
  dim1 :: nat
  dim2 :: nat
  elem :: "nat \<Rightarrow> nat \<Rightarrow> nat \<Rightarrow> real"

type_synonym frame = "real list"

record tokenizer =
  vocab_size :: nat
  pad_idx :: int
  decode :: "int list \<Rightarrow> bool \<Rightarrow> py_error + string"

type_synonym layer = "frame list list \<Rightarrow> py_error + frame list list"

type_synonym seq_model = "frame list list \<Rightarrow> nat list \<Rightarrow> py_error + tensor3 \<times> nat list"

type_synonym ctc_objective =
  "tensor3 \<Rightarrow> int list list \<Rightarrow> nat list \<Rightarrow> nat list \<Rightarrow> py_error + real"

type_synonym metric_fn =
  "tensor3 \<Rightarrow> nat list \<Rightarrow> string list \<Rightarrow> string list \<Rightarrow> py_error + real"

record corpus =
  corpus_name :: "string option"

record expert =
  upstream_dim :: nat
  corpus_of :: corpus
  tokenizer_of :: tokenizer
  projector :: layer
  model_of :: seq_model
  objective :: ctc_objective
  eval_dataloaders :: "string list"
  metrics :: "string list"
  metric_higher_better :: bool
  best_score :: real

text \<open>
  \<^verbatim>\<open>eval(s)\<close> evaluates the string \<open>s\<close> as an expression in the scope of the call; the
  field \<open>namespace\<close> gives the object it evaluates to, \<open>None\<close> when it evaluates to nothing
  (an unbound name). The object is
  \<^item> \<open>ModelClass\<close>: callable with the four arguments of the model constructor; these are the
    model classes of the imported \<^verbatim>\<open>asr.model\<close>, and any other callable in scope that takes
    such arguments (\<^verbatim>\<open>eval\<close> does not tell them apart);
  \<^item> \<open>MetricFn\<close>: callable with the four keyword arguments of a metric;
  \<^item> \<open>OtherObj\<close>: anything else (a module, a local variable), which raises \<^verbatim>\<open>TypeError\<close>
    when called either way.
\<close>

datatype 'h pyobj =
    ModelClass "nat \<Rightarrow> nat \<Rightarrow> nat \<Rightarrow> 'h \<Rightarrow> py_error + seq_model"
  | MetricFn metric_fn
  | OtherObj

record ('t, 'h) framework =
  namespace :: "string \<Rightarrow> 'h pyobj option"
  load_text_encoder :: "'t \<Rightarrow> py_error + tokenizer"
  linear :: "nat \<Rightarrow> nat \<Rightarrow> py_error + layer"
  ctc_loss :: "int \<Rightarrow> bool \<Rightarrow> py_error + ctc_objective"
  tensor_mean :: "real list \<Rightarrow> real"
  argmax :: "real list \<Rightarrow> nat"
  format_num :: "real \<Rightarrow> string"

subsection \<open>\<^verbatim>\<open>_get_task_name\<close>\<close>

definition lower_char :: "char \<Rightarrow> char" where
  "lower_char c =
     (let n = (of_char c :: nat) in if 65 \<le> n \<and> n \<le> 90 then char_of (n + 32) else c)"

definition lower :: "string \<Rightarrow> string" where
  "lower s = map lower_char s"

definition get_task_name :: "expert \<Rightarrow> py_error + string" where
  "get_task_name e =
     (case corpus_name (corpus_of e) of
        None \<Rightarrow> Inl KeyError
      | Some n \<Rightarrow> Inr (''ctc-'' @ lower n))"

subsection \<open>\<^verbatim>\<open>log_records\<close>\<close>

datatype log_entry =
    Scalar string real nat
  | Text string string nat

record lstate =
  self :: expert
  logger :: "log_entry list"
  save_names :: "string list"

text \<open>\<^verbatim>\<open>torch.FloatTensor(values)\<close>: every element must be a number.\<close>

fun float_tensor :: "pyval list \<Rightarrow> py_error + real list" where
  "float_tensor [] = Inr []"
| "float_tensor (Txt s # vs) = Inl TypeError"
| "float_tensor (Num x # vs) =
     (case float_tensor vs of Inl err \<Rightarrow> Inl err | Inr xs \<Rightarrow> Inr (x # xs))"

definition save_criterion :: "expert \<Rightarrow> real \<Rightarrow> bool" where
  "save_criterion e average =
     (if metric_higher_better e then average > best_score e else average < best_score e)"

text \<open>The body of the first loop, for one item \<open>(key, values)\<close> of the records.\<close>

definition scalar_step ::
  "('t, 'h) framework \<Rightarrow> string \<Rightarrow> nat \<Rightarrow> string \<Rightarrow> pyval list \<Rightarrow> lstate
     \<Rightarrow> lstate \<times> (py_error + unit)" where
  "scalar_step fw split global_step key values st =
     (case values of
        [] \<Rightarrow> (st, Inl IndexError)
      | v # _ \<Rightarrow>
          if \<not> is_num v then (st, Inr ())
          else
            (case float_tensor values of
               Inl err \<Rightarrow> (st, Inl err)
             | Inr xs \<Rightarrow>
                 let average = tensor_mean fw xs in
                 (case get_task_name (self st) of
                    Inl err \<Rightarrow> (st, Inl err)
                  | Inr task \<Rightarrow>
                      let st1 = st\<lparr>logger := logger st @
                                  [Scalar (task @ ''/'' @ split @ ''-'' @ key) average global_step]\<rparr>
                      in
                      (case metrics (self st1) of
                         [] \<Rightarrow> (st1, Inl IndexError)
                       | m0 # _ \<Rightarrow>
                           if key \<noteq> m0 then (st1, Inr ())
                           else
                             let crit = save_criterion (self st1) average in
                             (case eval_dataloaders (self st1) of
                                [] \<Rightarrow> (st1, Inl IndexError)
                              | d0 # _ \<Rightarrow>
                                  if split = d0 \<and> crit
                                  then (st1\<lparr>self := (self st1)\<lparr>best_score := average\<rparr>,
                                             save_names := save_names st1 @ [split @ ''-best.ckpt'']\<rparr>,
                                        Inr ())
                                  else (st1, Inr ()))))))"

fun scalar_loop ::
  "('t, 'h) framework \<Rightarrow> string \<Rightarrow> nat \<Rightarrow> (string \<times> pyval list) list \<Rightarrow> lstate
     \<Rightarrow> lstate \<times> (py_error + unit)" where
  "scalar_loop fw split global_step [] st = (st, Inr ())"
| "scalar_loop fw split global_step ((key, values) # rest) st =
     (case scalar_step fw split global_step key values st of
        (st1, Inl err) \<Rightarrow> (st1, Inl err)
      | (st1, Inr u) \<Rightarrow> scalar_loop fw split global_step rest st1)"

text \<open>Python's \<^verbatim>\<open>round\<close> of a float: the nearest integer, a tie going to the even one.\<close>

definition py_round :: "real \<Rightarrow> int" where
  "py_round x =
     (let f = \<lfloor>x\<rfloor>; d = x - of_int f in
      if d < 1 / 2 then f
      else if 1 / 2 < d then f + 1
      else if even f then f else f + 1)"

text \<open>\<^verbatim>\<open>range(0, stop, step)\<close> for a positive step: \<open>0, step, 2 * step, ...\<close> below \<open>stop\<close>.\<close>

definition py_range :: "nat \<Rightarrow> nat \<Rightarrow> nat list" where
  "py_range stop step = map (\<lambda>k. k * step) [0..<(stop + step - 1) div step]"

text \<open>\<^verbatim>\<open>range(0, len(records['filename']), round(len(records['filename']) / 5))\<close>:
  a zero step raises \<^verbatim>\<open>ValueError\<close>.\<close>

definition text_indices :: "nat \<Rightarrow> py_error + nat list" where
  "text_indices n =
     (let step = py_round (real n / 5) in
      if step = 0 then Inl ValueError else Inr (py_range n (nat step)))"

fun py_str :: "('t, 'h) framework \<Rightarrow> pyval \<Rightarrow> string" where
  "py_str fw (Txt s) = s"
| "py_str fw (Num x) = format_num fw x"

definition text_entry ::
  "('t, 'h) framework \<Rightarrow> string \<Rightarrow> string \<Rightarrow> nat \<Rightarrow> pyval \<Rightarrow> pyval \<Rightarrow> pyval \<Rightarrow> log_entry" where
  "text_entry fw task split global_step filename hypothesis groundtruth =
     Text (task @ ''/'' @ split @ ''-'' @ py_str fw filename)
          (''**hypothesis**: '' @ py_str fw hypothesis @
           ''<br>**groundtruth**: '' @ py_str fw groundtruth)
          global_step"

text \<open>The body of the second loop, for one index \<open>i\<close>.\<close>

definition text_step ::
  "('t, 'h) framework \<Rightarrow> string \<Rightarrow> nat \<Rightarrow> records \<Rightarrow> nat \<Rightarrow> lstate
     \<Rightarrow> lstate \<times> (py_error + unit)" where
  "text_step fw split global_step r i st =
     (case lookup r ''filename'' of Inl err \<Rightarrow> (st, Inl err) | Inr fs \<Rightarrow>
     (case nth_err fs i of Inl err \<Rightarrow> (st, Inl err) | Inr filename \<Rightarrow>
     (case lookup r ''hypothesis'' of Inl err \<Rightarrow> (st, Inl err) | Inr hs \<Rightarrow>
     (case nth_err hs i of Inl err \<Rightarrow> (st, Inl err) | Inr hypothesis \<Rightarrow>
     (case lookup r ''groundtruth'' of Inl err \<Rightarrow> (st, Inl err) | Inr gs \<Rightarrow>
     (case nth_err gs i of Inl err \<Rightarrow> (st, Inl err) | Inr groundtruth \<Rightarrow>
     (case get_task_name (self st) of Inl err \<Rightarrow> (st, Inl err) | Inr task \<Rightarrow>
        (st\<lparr>logger := logger st @
              [text_entry fw task split global_step filename hypothesis groundtruth]\<rparr>,
         Inr ()))))))))"

fun text_loop ::
  "('t, 'h) framework \<Rightarrow> string \<Rightarrow> nat \<Rightarrow> records \<Rightarrow> nat list \<Rightarrow> lstate
     \<Rightarrow> lstate \<times> (py_error + unit)" where
  "text_loop fw split global_step r [] st = (st, Inr ())"
| "text_loop fw split global_step r (i # rest) st =
     (case text_step fw split global_step r i st of
        (st1, Inl err) \<Rightarrow> (st1, Inl err)
      | (st1, Inr u) \<Rightarrow> text_loop fw split global_step r rest st1)"

text \<open>
  \<^verbatim>\<open>log_records(self, split, records, logger, global_step)\<close>. The result is the state
  after the call (the expert with its best score, the logger with the entries added)
  and either the exception raised or the returned \<^verbatim>\<open>save_names\<close>. The \<^verbatim>\<open>print\<close> of each
  average is not modelled. A \<^verbatim>\<open>defaultdict\<close> that lacks one of the three text keys gets
  it inserted by the read; every such path raises, and the records are not returned.
\<close>

definition log_records ::
  "('t, 'h) framework \<Rightarrow> expert \<Rightarrow> string \<Rightarrow> records \<Rightarrow> log_entry list \<Rightarrow> nat
     \<Rightarrow> lstate \<times> (py_error + string list)" where
  "log_records fw e split r lg global_step =
     (let st0 = \<lparr>self = e, logger = lg, save_names = []\<rparr> in
      case scalar_loop fw split global_step (entries r) st0 of
        (st1, Inl err) \<Rightarrow> (st1, Inl err)
      | (st1, Inr u) \<Rightarrow>
          (case lookup r ''filename'' of
             Inl err \<Rightarrow> (st1, Inl err)
           | Inr fs \<Rightarrow>
               (case text_indices (length fs) of
                  Inl err \<Rightarrow> (st1, Inl err)
                | Inr idx \<Rightarrow>
                    (case text_loop fw split global_step r idx st1 of
                       (st2, Inl err) \<Rightarrow> (st2, Inl err)
                     | (st2, Inr u2) \<Rightarrow> (st2, Inr (save_names st2))))))"

subsection \<open>The constructor\<close>

text \<open>
  The configuration, as the constructor reads it. A key that is absent is \<open>None\<close>.
  The dictionary \<^verbatim>\<open>downstream_expert['model']\<close> holds the three fixed keys and, under
  other names, the hyperparameter blocks of the models.
\<close>

record 'h modelrc =
  project_dim :: "nat option"
  select :: "string option"
  zero_infinity :: "bool option"
  blocks :: "(string \<times> 'h) list"

record ('t, 'h) downstream_cfg =
  cfg_corpus :: "corpus option"
  cfg_text :: "'t option"
  cfg_model :: "'h modelrc option"
  cfg_metric :: "string list option"
  cfg_metric_higher_better :: "bool option"

record runner_cfg =
  cfg_eval_dataloaders :: "string list option"

text \<open>\<^verbatim>\<open>**modelrc[model_select]\<close>: the value under the selected name must be there
  (\<^verbatim>\<open>KeyError\<close>) and be a mapping (\<^verbatim>\<open>TypeError\<close> for the three scalar keys).\<close>

definition modelrc_block :: "'h modelrc \<Rightarrow> string \<Rightarrow> py_error + 'h" where
  "modelrc_block rc nm =
     (if nm = ''project_dim''
      then (case project_dim rc of None \<Rightarrow> Inl KeyError | Some d \<Rightarrow> Inl TypeError)
      else if nm = ''select''
      then (case select rc of None \<Rightarrow> Inl KeyError | Some s \<Rightarrow> Inl TypeError)
      else if nm = ''zero_infinity''
      then (case zero_infinity rc of None \<Rightarrow> Inl KeyError | Some z \<Rightarrow> Inl TypeError)
      else (case map_of (blocks rc) nm of None \<Rightarrow> Inl KeyError | Some h \<Rightarrow> Inr h))"

text \<open>The initial best score: \<^verbatim>\<open>0 if self.metric_higher_better else 1 << 31\<close>.\<close>

definition initial_best_score :: "bool \<Rightarrow> real" where
  "initial_best_score higher_better = (if higher_better then 0 else 2 ^ 31)"

text \<open>
  \<^verbatim>\<open>__init__(self, upstream_dim, upstream_rate, runner, downstream_expert, expdir)\<close>,
  in the order the statements read the configuration. \<^verbatim>\<open>eval(model_select)\<close> is
  evaluated before the arguments of the call, and the call itself comes last.
\<close>

definition init ::
  "('t, 'h) framework \<Rightarrow> nat \<Rightarrow> nat \<Rightarrow> runner_cfg \<Rightarrow> ('t, 'h) downstream_cfg
     \<Rightarrow> py_error + expert" where
  "init fw up_dim upstream_rate runner downstream_expert =
     (case cfg_corpus downstream_expert of None \<Rightarrow> Inl KeyError | Some corp \<Rightarrow>
     (case cfg_text downstream_expert of None \<Rightarrow> Inl KeyError | Some text_rc \<Rightarrow>
     (case load_text_encoder fw text_rc of Inl err \<Rightarrow> Inl err | Inr tok \<Rightarrow>
     (case cfg_model downstream_expert of None \<Rightarrow> Inl KeyError | Some rc \<Rightarrow>
     (case project_dim rc of None \<Rightarrow> Inl KeyError | Some pd \<Rightarrow>
     (case linear fw up_dim pd of Inl err \<Rightarrow> Inl err | Inr proj \<Rightarrow>
     (case select rc of None \<Rightarrow> Inl KeyError | Some model_select \<Rightarrow>
     (case namespace fw model_select of None \<Rightarrow> Inl NameError | Some obj \<Rightarrow>
     (case modelrc_block rc model_select of Inl err \<Rightarrow> Inl err | Inr hp \<Rightarrow>
     (case obj of
        OtherObj \<Rightarrow> Inl TypeError
      | MetricFn f \<Rightarrow> Inl TypeError
      | ModelClass ctor \<Rightarrow>
     (case ctor pd (vocab_size tok) upstream_rate hp of Inl err \<Rightarrow> Inl err | Inr m \<Rightarrow>
     (case zero_infinity rc of None \<Rightarrow> Inl KeyError | Some zi \<Rightarrow>
     (case ctc_loss fw (pad_idx tok) zi of Inl err \<Rightarrow> Inl err | Inr ctc \<Rightarrow>
     (case cfg_eval_dataloaders runner of None \<Rightarrow> Inl KeyError | Some dls \<Rightarrow>
     (case cfg_metric downstream_expert of None \<Rightarrow> Inl KeyError | Some ms \<Rightarrow>
     (case cfg_metric_higher_better downstream_expert of None \<Rightarrow> Inl KeyError | Some hb \<Rightarrow>
        Inr \<lparr>upstream_dim = up_dim, corpus_of = corp, tokenizer_of = tok,
             projector = proj, model_of = m, objective = ctc,
             eval_dataloaders = dls, metrics = ms, metric_higher_better = hb,
             best_score = initial_best_score hb\<rparr>))))))))))))))))"

subsection \<open>\<^verbatim>\<open>forward\<close>\<close>

text \<open>\<^verbatim>\<open>pad_sequence(sequences, batch_first=True, padding_value=p)\<close>: every sequence is
  padded on the right to the length of the longest.\<close>

definition max_len :: "'a list list \<Rightarrow> nat" where
  "max_len seqs = foldr (\<lambda>s m. max (length s) m) seqs 0"

definition pad_sequence :: "'a list list \<Rightarrow> 'a \<Rightarrow> 'a list list" where
  "pad_sequence seqs padding = map (\<lambda>s. s @ replicate (max_len seqs - length s) padding) seqs"

text \<open>\<^verbatim>\<open>log_probs.transpose(0, 1)\<close>.\<close>

definition transpose01 :: "tensor3 \<Rightarrow> tensor3" where
  "transpose01 x = \<lparr>dim0 = dim1 x, dim1 = dim0 x, dim2 = dim2 x, elem = (\<lambda>t n c. elem x n t c)\<rparr>"

text \<open>\<^verbatim>\<open>log_probs.argmax(dim=-1)\<close> and \<^verbatim>\<open>h.tolist()\<close> of each row: one token for every
  time step of the tensor. The reduction of an empty dimension raises.\<close>

definition argmax_last :: "('t, 'h) framework \<Rightarrow> tensor3 \<Rightarrow> py_error + int list list" where
  "argmax_last fw x =
     (if dim2 x = 0 then Inl IndexError
      else Inr (map (\<lambda>n. map (\<lambda>t. int (argmax fw (map (elem x n t) [0..<dim2 x]))) [0..<dim1 x])
                    [0..<dim0 x]))"

text \<open>\<^verbatim>\<open>records[k].append(v)\<close>: the list is read first, then the argument is evaluated
  (it may raise), then the value is appended in place.\<close>

definition set_entry :: "records \<Rightarrow> string \<Rightarrow> pyval list \<Rightarrow> records" where
  "set_entry r k vs = r\<lparr>entries := map (\<lambda>(k', vs'). if k' = k then (k', vs) else (k', vs')) (entries r)\<rparr>"

definition append_to :: "records \<Rightarrow> string \<Rightarrow> py_error + pyval \<Rightarrow> records \<times> (py_error + unit)" where
  "append_to r k arg =
     (case getitem r k of
        Inl err \<Rightarrow> (r, Inl err)
      | Inr (vs, r1) \<Rightarrow>
          (case arg of
             Inl err \<Rightarrow> (r1, Inl err)
           | Inr v \<Rightarrow> (set_entry r1 k (vs @ [v]), Inr ())))"

text \<open>\<^verbatim>\<open>[self.tokenizer.decode(h.tolist(), ...) for h in rows]\<close>: the rows are decoded in
  order, and the first \<^verbatim>\<open>decode\<close> that raises ends the comprehension.\<close>

fun decode_all :: "tokenizer \<Rightarrow> int list list \<Rightarrow> bool \<Rightarrow> py_error + string list" where
  "decode_all tok [] ignore_repeat = Inr []"
| "decode_all tok (h # rows) ignore_repeat =
     (case decode tok h ignore_repeat of
        Inl err \<Rightarrow> Inl err
      | Inr s \<Rightarrow>
          (case decode_all tok rows ignore_repeat of
             Inl err \<Rightarrow> Inl err
           | Inr ss \<Rightarrow> Inr (s # ss)))"

text \<open>\<^verbatim>\<open>eval(metric)(log_probs=..., log_probs_len=..., hypothesis=..., groundtruth=...)\<close>.\<close>

definition eval_metric ::
  "('t, 'h) framework \<Rightarrow> string \<Rightarrow> tensor3 \<Rightarrow> nat list \<Rightarrow> string list \<Rightarrow> string list
     \<Rightarrow> py_error + pyval" where
  "eval_metric fw metric log_probs log_probs_len hypothesis groundtruth =
     (case namespace fw metric of
        None \<Rightarrow> Inl NameError
      | Some (MetricFn f) \<Rightarrow>
          (case f log_probs log_probs_len hypothesis groundtruth of
             Inl err \<Rightarrow> Inl err
           | Inr x \<Rightarrow> Inr (Num x))
      | Some (ModelClass c) \<Rightarrow> Inl TypeError
      | Some OtherObj \<Rightarrow> Inl TypeError)"

fun metric_loop ::
  "('t, 'h) framework \<Rightarrow> string list \<Rightarrow> tensor3 \<Rightarrow> nat list \<Rightarrow> string list \<Rightarrow> string list
     \<Rightarrow> records \<Rightarrow> records \<times> (py_error + unit)" where
  "metric_loop fw [] log_probs log_probs_len hypothesis groundtruth r = (r, Inr ())"
| "metric_loop fw (metric # rest) log_probs log_probs_len hypothesis groundtruth r =
     (case append_to r metric
             (eval_metric fw metric log_probs log_probs_len hypothesis groundtruth) of
        (r1, Inl err) \<Rightarrow> (r1, Inl err)
      | (r1, Inr u) \<Rightarrow> metric_loop fw rest log_probs log_probs_len hypothesis groundtruth r1)"

text \<open>The collation at the head of \<^verbatim>\<open>forward\<close>: the lengths, taken before padding, and
  the two padded batches. Frames have the width \<open>upstream_dim\<close>; the padding frame is zero.\<close>

record batch =
  features_len :: "nat list"
  labels_len :: "nat list"
  padded_features :: "frame list list"
  padded_labels :: "int list list"

definition collate :: "expert \<Rightarrow> frame list list \<Rightarrow> int list list \<Rightarrow> batch" where
  "collate e features labels =
     \<lparr>features_len = map length features,
      labels_len = map length labels,
      padded_features = pad_sequence features (replicate (upstream_dim e) 0),
      padded_labels = pad_sequence labels (pad_idx (tokenizer_of e))\<rparr>"

text \<open>\<^verbatim>\<open>self.model(self.projector(features), features_len)\<close>.\<close>

definition run_model :: "expert \<Rightarrow> batch \<Rightarrow> py_error + tensor3 \<times> nat list" where
  "run_model e b =
     (case projector e (padded_features b) of
        Inl err \<Rightarrow> Inl err
      | Inr x \<Rightarrow> model_of e x (features_len b))"

text \<open>The arguments of the call of \<^verbatim>\<open>self.objective\<close>, and the call.\<close>

record loss_args =
  arg_log_probs :: tensor3
  arg_targets :: "int list list"
  arg_input_lengths :: "nat list"
  arg_target_lengths :: "nat list"

definition objective_args :: "batch \<Rightarrow> tensor3 \<Rightarrow> nat list \<Rightarrow> loss_args" where
  "objective_args b log_probs log_probs_len =
     \<lparr>arg_log_probs = transpose01 log_probs,
      arg_targets = padded_labels b,
      arg_input_lengths = log_probs_len,
      arg_target_lengths = labels_len b\<rparr>"

definition call_objective :: "expert \<Rightarrow> loss_args \<Rightarrow> py_error + real" where
  "call_objective e a =
     objective e (arg_log_probs a) (arg_targets a) (arg_input_lengths a) (arg_target_lengths a)"

text \<open>
  \<^verbatim>\<open>forward(self, split, features, labels, filenames, records)\<close>: the records after
  the call and either the exception or the loss. \<^verbatim>\<open>features[0].device\<close> raises on an
  empty batch, \<^verbatim>\<open>pad_sequence\<close> on an empty list of labels. The lists stored under
  different keys of the records are different objects.
\<close>

definition forward ::
  "('t, 'h) framework \<Rightarrow> expert \<Rightarrow> string \<Rightarrow> frame list list \<Rightarrow> int list list \<Rightarrow> string list
     \<Rightarrow> records \<Rightarrow> records \<times> (py_error + real)" where
  "forward fw e split features labels filenames r =
     (if features = [] then (r, Inl IndexError)
      else if labels = [] then (r, Inl RuntimeError)
      else
        let b = collate e features labels in
        (case run_model e b of
           Inl err \<Rightarrow> (r, Inl err)
         | Inr (log_probs, log_probs_len) \<Rightarrow>
        (case call_objective e (objective_args b log_probs log_probs_len) of
           Inl err \<Rightarrow> (r, Inl err)
         | Inr loss \<Rightarrow>
        (case append_to r ''loss'' (Inr (Num loss)) of
           (r1, Inl err) \<Rightarrow> (r1, Inl err)
         | (r1, Inr u1) \<Rightarrow>
        (case argmax_last fw log_probs of
           Inl err \<Rightarrow> (r1, Inl err)
         | Inr pred_tokens \<Rightarrow>
        (case decode_all (tokenizer_of e) pred_tokens True of
           Inl err \<Rightarrow> (r1, Inl err)
         | Inr hypothesis \<Rightarrow>
        (case decode_all (tokenizer_of e) (padded_labels b) False of
           Inl err \<Rightarrow> (r1, Inl err)
         | Inr groundtruth \<Rightarrow>
        (case metric_loop fw (metrics e) log_probs log_probs_len hypothesis groundtruth r1 of
           (r2, Inl err) \<Rightarrow> (r2, Inl err)
         | (r2, Inr u2) \<Rightarrow>
        (case append_to r2 ''hypothesis'' (map_sum id Txt (nth_err hypothesis 0)) of
           (r3, Inl err) \<Rightarrow> (r3, Inl err)
         | (r3, Inr u3) \<Rightarrow>
        (case append_to r3 ''groundtruth'' (map_sum id Txt (nth_err groundtruth 0)) of
           (r4, Inl err) \<Rightarrow> (r4, Inl err)
         | (r4, Inr u4) \<Rightarrow>
        (case append_to r4 ''filename'' (map_sum id Txt (nth_err filenames 0)) of
           (r5, Inl err) \<Rightarrow> (r5, Inl err)
         | (r5, Inr u5) \<Rightarrow> (r5, Inr loss))))))))))))"

subsection \<open>Notions used to state the properties\<close>

text \<open>The mean of the primary metric (the first of \<open>metrics\<close>) in a dictionary, when its
  list is there, starts with a number and converts to a tensor.\<close>

definition primary_mean ::
  "('t, 'h) framework \<Rightarrow> expert \<Rightarrow> (string \<times> pyval list) list \<Rightarrow> real option" where
  "primary_mean fw e es =
     (case metrics e of
        [] \<Rightarrow> None
      | m0 # _ \<Rightarrow>
          (case map_of es m0 of
             None \<Rightarrow> None
           | Some values \<Rightarrow>
               (case values of
                  [] \<Rightarrow> None
                | v # _ \<Rightarrow>
                    if is_num v
                    then (case float_tensor values of
                            Inl err \<Rightarrow> None
                          | Inr xs \<Rightarrow> Some (tensor_mean fw xs))
                    else None)))"

definition on_first_split :: "expert \<Rightarrow> string \<Rightarrow> bool" where
  "on_first_split e split = (case eval_dataloaders e of [] \<Rightarrow> False | d0 # _ \<Rightarrow> split = d0)"

text \<open>The comparison of a mean with the best score, as the claims word it: strictly
  greater when higher is better, strictly less otherwise.\<close>

definition beats :: "expert \<Rightarrow> real \<Rightarrow> bool" where
  "beats e a = (if metric_higher_better e then best_score e < a else a < best_score e)"

text \<open>The three conditions together: the primary metric has a mean, the split is the first
  evaluation split, and the mean beats the best score in the configured direction.\<close>

definition improves ::
  "('t, 'h) framework \<Rightarrow> expert \<Rightarrow> string \<Rightarrow> (string \<times> pyval list) list \<Rightarrow> bool" where
  "improves fw e split es =
     (case primary_mean fw e es of
        None \<Rightarrow> False
      | Some a \<Rightarrow> on_first_split e split \<and> beats e a)"

text \<open>The list stored under a key, empty when the key is absent.\<close>

definition stored :: "records \<Rightarrow> string \<Rightarrow> pyval list" where
  "stored r k = (case map_of (entries r) k of None \<Rightarrow> [] | Some vs \<Rightarrow> vs)"

text \<open>The records take an append under a key: the key is there, or the dictionary has a
  default factory. The value a resolved metric appends.\<close>

definition accepts :: "records \<Rightarrow> string \<Rightarrow> bool" where
  "accepts r k = (default_factory r \<or> map_of (entries r) k \<noteq> None)"

definition metric_value ::
  "('t, 'h) framework \<Rightarrow> tensor3 \<Rightarrow> nat list \<Rightarrow> string list \<Rightarrow> string list \<Rightarrow> string \<Rightarrow> pyval" where
  "metric_value fw log_probs log_probs_len hypothesis groundtruth metric =
     (case eval_metric fw metric log_probs log_probs_len hypothesis groundtruth of
        Inl err \<Rightarrow> Num 0
      | Inr v \<Rightarrow> v)"

text \<open>Records and an expert on which \<^verbatim>\<open>log_records\<close> raises nothing: the corpus has a name,
  there is a metric and an evaluation split, every list is non-empty and a list that starts
  with a number holds numbers only, and the three text lists are there, with at least
  three filenames and as many hypotheses and groundtruths.\<close>

definition entry_ok :: "string \<times> pyval list \<Rightarrow> bool" where
  "entry_ok kv = (case snd kv of [] \<Rightarrow> False | v # vs \<Rightarrow> if is_num v then list_all is_num vs else True)"

definition cfg_ok :: "expert \<Rightarrow> bool" where
  "cfg_ok e = (corpus_name (corpus_of e) \<noteq> None \<and> metrics e \<noteq> [] \<and> eval_dataloaders e \<noteq> [])"

definition texts_ok :: "records \<Rightarrow> nat \<Rightarrow> bool" where
  "texts_ok r n =
     (case (map_of (entries r) ''filename'', map_of (entries r) ''hypothesis'',
            map_of (entries r) ''groundtruth'') of
        (Some fs, Some hs, Some gs) \<Rightarrow> length fs = n \<and> n \<le> length hs \<and> n \<le> length gs
      | _ \<Rightarrow> False)"

definition well_formed :: "expert \<Rightarrow> records \<Rightarrow> nat \<Rightarrow> bool" where
  "well_formed e r n = (cfg_ok e \<and> list_all entry_ok (entries r) \<and>
     distinct (map fst (entries r)) \<and> texts_ok r n)"

text \<open>The text entries of a log, and the entries the second loop of \<^verbatim>\<open>log_records\<close>
  writes for a list of indices.\<close>

fun is_text :: "log_entry \<Rightarrow> bool" where
  "is_text (Text name body global_step) = True"
| "is_text (Scalar name x global_step) = False"

definition sample_entries ::
  "('t, 'h) framework \<Rightarrow> expert \<Rightarrow> string \<Rightarrow> nat \<Rightarrow> records \<Rightarrow> nat list \<Rightarrow> log_entry list" where
  "sample_entries fw e split global_step r idx =
     (case get_task_name e of
        Inl err \<Rightarrow> []
      | Inr task \<Rightarrow>
          map (\<lambda>i. text_entry fw task split global_step
                   (stored r ''filename'' ! i) (stored r ''hypothesis'' ! i)
                   (stored r ''groundtruth'' ! i)) idx)"




text \<open>What one call of \<^verbatim>\<open>forward\<close> appends under a key \<open>k\<close>, in the order of the appends:
  the loss under \<open>loss\<close>, the value of every metric named \<open>k\<close>, and the three texts.\<close>

definition appended ::
  "string list \<Rightarrow> pyval \<Rightarrow> (string \<Rightarrow> pyval) \<Rightarrow> pyval \<Rightarrow> pyval \<Rightarrow> pyval \<Rightarrow> string \<Rightarrow> pyval list" where
  "appended metric_names loss metric_val hypothesis groundtruth filename k =
     (if k = ''loss'' then [loss] else []) @
     map metric_val (filter (\<lambda>m. m = k) metric_names) @
     (if k = ''hypothesis'' then [hypothesis] else []) @
     (if k = ''groundtruth'' then [groundtruth] else []) @
     (if k = ''filename'' then [filename] else [])"

subsection \<open>Example configurations\<close>

definition demo_decode :: "int list \<Rightarrow> bool \<Rightarrow> py_error + string" where
  "demo_decode toks ignore_repeat =
     Inr (map (\<lambda>t. if t = 1 then CHR ''a'' else CHR ''b'')
            (filter (\<lambda>t. t \<noteq> 0) (if ignore_repeat then remdups_adj toks else toks)))"

definition demo_tokenizer :: tokenizer where
  "demo_tokenizer = \<lparr>vocab_size = 3, pad_idx = 0, decode = demo_decode\<rparr>"

text \<open>A model that keeps the lengths, and one that halves them (a model with a sample rate
  of two).\<close>

definition demo_model :: "nat \<Rightarrow> seq_model" where
  "demo_model vs feats lens =
     Inr (\<lparr>dim0 = length feats, dim1 = max_len feats, dim2 = vs,
           elem = (\<lambda>n t c. if c = 1 then 1 else 0)\<rparr>, lens)"

definition demo_halving_model :: "nat \<Rightarrow> seq_model" where
  "demo_halving_model vs feats lens =
     Inr (\<lparr>dim0 = length feats, dim1 = max_len feats div 2, dim2 = vs,
           elem = (\<lambda>n t c. if c = 1 then 1 else 0)\<rparr>, map (\<lambda>l. l div 2) lens)"

definition demo_model_class :: "nat \<Rightarrow> nat \<Rightarrow> nat \<Rightarrow> unit \<Rightarrow> py_error + seq_model" where
  "demo_model_class pd vs rate hp = Inr (demo_model vs)"

definition demo_wer :: metric_fn where
  "demo_wer log_probs log_probs_len hypothesis groundtruth = Inr (1 / 2)"

text \<open>The first index of the greatest element.\<close>

definition demo_argmax :: "real list \<Rightarrow> nat" where
  "demo_argmax xs = length (takeWhile (\<lambda>x. x < fold max xs (hd xs)) xs)"

definition demo_objective :: ctc_objective where
  "demo_objective log_probs targets input_lengths target_lengths = Inr 1"

text \<open>An objective that returns the sum of the input lengths it is given.\<close>

definition demo_length_objective :: ctc_objective where
  "demo_length_objective log_probs targets input_lengths target_lengths =
     Inr (real (sum_list input_lengths))"

definition demo_framework :: "(unit, unit) framework" where
  "demo_framework =
     \<lparr>namespace = map_of [(''RNNs'', ModelClass demo_model_class), (''CNN'', ModelClass demo_model_class),
                            (''wer'', MetricFn demo_wer), (''torch'', OtherObj)],
      load_text_encoder = (\<lambda>u. Inr demo_tokenizer),
      linear = (\<lambda>d_in d_out. Inr Inr),
      ctc_loss = (\<lambda>blank zi. Inr demo_objective),
      tensor_mean = (\<lambda>xs. sum_list xs / real (length xs)),
      argmax = demo_argmax,
      format_num = (\<lambda>x. ''0.0'')\<rparr>"

definition demo_expert :: "bool \<Rightarrow> real \<Rightarrow> expert" where
  "demo_expert higher_better best =
     \<lparr>upstream_dim = 2, corpus_of = \<lparr>corpus_name = Some ''Libri''\<rparr>,
      tokenizer_of = demo_tokenizer, projector = Inr,
      model_of = demo_model 3,
      objective = demo_objective,
      eval_dataloaders = [''dev'', ''test''], metrics = [''wer''],
      metric_higher_better = higher_better, best_score = best\<rparr>"

text \<open>Records of \<open>n\<close> batches whose primary metric is \<open>x\<close> in every batch.\<close>

definition demo_records :: "real \<Rightarrow> nat \<Rightarrow> records" where
  "demo_records x n =
     \<lparr>entries = [(''loss'', replicate n (Num 1)), (''wer'', replicate n (Num x)),
                 (''hypothesis'', replicate n (Txt ''ab'')),
                 (''groundtruth'', replicate n (Txt ''ab'')),
                 (''filename'', replicate n (Txt ''f''))],
      default_factory = True\<rparr>"

definition demo_cfg :: "string \<Rightarrow> string list \<Rightarrow> bool \<Rightarrow> (unit, unit) downstream_cfg" where
  "demo_cfg model_name metric_names higher_better =
     \<lparr>cfg_corpus = Some \<lparr>corpus_name = Some ''Libri''\<rparr>,
      cfg_text = Some (),
      cfg_model = Some \<lparr>project_dim = Some 2, select = Some model_name, zero_infinity = Some True,
                        blocks = [(''RNNs'', ()), (''torch'', ())]\<rparr>,
      cfg_metric = Some metric_names,
      cfg_metric_higher_better = Some higher_better\<rparr>"

definition demo_runner :: runner_cfg where
  "demo_runner = \<lparr>cfg_eval_dataloaders = Some [''dev'', ''test'']\<rparr>"

text \<open>A batch of three utterances, with feature lengths 10, 12, 8 and label lengths 3, 5, 2.\<close>

definition demo_features :: "frame list list" where
  "demo_features = [replicate 10 [0, 0], replicate 12 [0, 0], replicate 8 [0, 0]]"

definition demo_labels :: "int list list" where
  "demo_labels = [[1, 2, 1], [1, 1, 2, 2, 1], [2, 1]]"

definition demo_filenames :: "string list" where
  "demo_filenames = [''a.wav'', ''b.wav'', ''c.wav'']"

section \<open>Properties\<close>

subsection \<open>The first loop of \<^verbatim>\<open>log_records\<close>\<close>

lemma scalar_step_other:
  assumes "scalar_step fw split gs key values st = (st', out)"
      and "metrics (self st) = [] \<or> key \<noteq> hd (metrics (self st))"
  shows "self st' = self st \<and> save_names st' = save_names st"
  using assms
  by (auto simp: scalar_step_def Let_def split: list.splits if_splits sum.splits)

lemma scalar_loop_other:
  assumes "scalar_loop fw split gs es st = (st', out)"
      and "metrics (self st) = [] \<or> hd (metrics (self st)) \<notin> fst ` set es"
  shows "self st' = self st \<and> save_names st' = save_names st"
  using assms
proof (induction es arbitrary: st)
  case Nil
  then show ?case by simp
next
  case (Cons kv es)
  obtain key vals where kv: "kv = (key, vals)" by (cases kv)
  obtain st1 o1 where s1: "scalar_step fw split gs key vals st = (st1, o1)"
    by (cases "scalar_step fw split gs key vals st")
  have keep: "self st1 = self st \<and> save_names st1 = save_names st"
    using scalar_step_other [OF s1] Cons.prems(2) kv by auto
  show ?case
  proof (cases o1)
    case (Inl err)
    then show ?thesis using Cons.prems(1) kv s1 keep by simp
  next
    case (Inr u)
    then have "scalar_loop fw split gs es st1 = (st', out)"
      using Cons.prems(1) kv s1 by simp
    moreover have "metrics (self st1) = [] \<or> hd (metrics (self st1)) \<notin> fst ` set es"
      using Cons.prems(2) keep by auto
    ultimately show ?thesis using Cons.IH keep by metis
  qed
qed

lemma scalar_step_primary:
  assumes step: "scalar_step fw split gs key vals st = (st', out)"
      and ms: "metrics (self st) = key # ms"
  shows "(self st' = self st \<and> save_names st' = save_names st \<and>
            (out = Inr () \<longrightarrow> \<not> improves fw (self st) split ((key, vals) # es)))
         \<or> (\<exists>a. out = Inr () \<and> improves fw (self st) split ((key, vals) # es) \<and>
             primary_mean fw (self st) ((key, vals) # es) = Some a \<and>
             self st' = (self st)\<lparr>best_score := a\<rparr> \<and>
             save_names st' = save_names st @ [split @ ''-best.ckpt''])"
proof (cases vals)
  case Nil
  then show ?thesis using step by (auto simp: scalar_step_def)
next
  case (Cons v vs)
  show ?thesis
  proof (cases "is_num v")
    case False
    then have "st' = st" "out = Inr ()"
      using step Cons by (simp_all add: scalar_step_def)
    moreover have "primary_mean fw (self st) ((key, vals) # es) = None"
      using False Cons ms by (simp add: primary_mean_def)
    ultimately show ?thesis by (simp add: improves_def)
  next
    case num: True
    show ?thesis
    proof (cases "float_tensor vals")
      case (Inl err)
      then show ?thesis using step Cons num by (auto simp: scalar_step_def)
    next
      case xs: (Inr xs)
      have pm: "primary_mean fw (self st) ((key, vals) # es) = Some (tensor_mean fw xs)"
        using Cons num xs ms by (simp add: primary_mean_def)
      show ?thesis
      proof (cases "get_task_name (self st)")
        case (Inl err)
        then show ?thesis using step Cons num xs by (auto simp: scalar_step_def)
      next
        case task: (Inr task)
        show ?thesis
        proof (cases "eval_dataloaders (self st)")
          case Nil
          then show ?thesis using step Cons num xs task ms
            by (auto simp: scalar_step_def Let_def)
        next
          case dl: (Cons d0 ds)
          show ?thesis
          proof (cases "split = d0 \<and> save_criterion (self st) (tensor_mean fw xs)")
            case True
            then have "improves fw (self st) split ((key, vals) # es)"
              using pm dl by (simp add: improves_def on_first_split_def beats_def save_criterion_def)
            moreover have "out = Inr ()" "self st' = (self st)\<lparr>best_score := tensor_mean fw xs\<rparr>"
              "save_names st' = save_names st @ [split @ ''-best.ckpt'']"
              using True step Cons num xs task ms dl by (auto simp: scalar_step_def Let_def)
            ultimately show ?thesis using pm by blast
          next
            case False
            then have "\<not> improves fw (self st) split ((key, vals) # es)"
              using pm dl by (simp add: improves_def on_first_split_def beats_def save_criterion_def)
            moreover have "self st' = self st" "save_names st' = save_names st"
              using False step Cons num xs task ms dl by (auto simp: scalar_step_def Let_def)
            ultimately show ?thesis by blast
          qed
        qed
      qed
    qed
  qed
qed

lemma improves_skip:
  assumes "metrics e = [] \<or> key \<noteq> hd (metrics e)"
  shows "improves fw e split ((key, vals) # es) = improves fw e split es"
    and "primary_mean fw e ((key, vals) # es) = primary_mean fw e es"
  using assms by (auto simp: improves_def primary_mean_def split: list.splits)

lemma scalar_loop_char:
  assumes "scalar_loop fw split gs es st = (st', out)"
      and "distinct (map fst es)"
  shows "(self st' = self st \<and> save_names st' = save_names st \<and>
            (out = Inr () \<longrightarrow> \<not> improves fw (self st) split es))
         \<or> (\<exists>a. improves fw (self st) split es \<and>
             primary_mean fw (self st) es = Some a \<and>
             self st' = (self st)\<lparr>best_score := a\<rparr> \<and>
             save_names st' = save_names st @ [split @ ''-best.ckpt''])"
  using assms
proof (induction es arbitrary: st)
  case Nil
  then show ?case by (simp add: improves_def primary_mean_def split: list.splits)
next
  case (Cons kv es)
  obtain key vals where kv: "kv = (key, vals)" by (cases kv)
  obtain st1 o1 where s1: "scalar_step fw split gs key vals st = (st1, o1)"
    by (cases "scalar_step fw split gs key vals st")
  have dist: "distinct (map fst es)" and fresh: "key \<notin> fst ` set es"
    using Cons.prems(2) kv by auto
  show ?case
  proof (cases "metrics (self st) = [] \<or> key \<noteq> hd (metrics (self st))")
    case True
    have keep: "self st1 = self st \<and> save_names st1 = save_names st"
      using scalar_step_other [OF s1 True] .
    show ?thesis
    proof (cases o1)
      case (Inl err)
      then show ?thesis using Cons.prems(1) kv s1 keep by auto
    next
      case (Inr u)
      then have "scalar_loop fw split gs es st1 = (st', out)"
        using Cons.prems(1) kv s1 by simp
      from Cons.IH [OF this dist] show ?thesis
        using keep kv by (auto simp: improves_skip [OF True])
    qed
  next
    case False
    then obtain ms where ms: "metrics (self st) = key # ms"
      by (cases "metrics (self st)") auto
    note step = scalar_step_primary [OF s1 ms, of es]
    show ?thesis
    proof (cases o1)
      case (Inl err)
      then show ?thesis using Cons.prems(1) kv s1 step by auto
    next
      case (Inr u)
      then have loop: "scalar_loop fw split gs es st1 = (st', out)"
        using Cons.prems(1) kv s1 by simp
      have m1: "metrics (self st1) = key # ms"
        using step ms by auto
      have "metrics (self st1) = [] \<or> hd (metrics (self st1)) \<notin> fst ` set es"
        using m1 fresh by simp
      from scalar_loop_other [OF loop this]
      have keep: "self st' = self st1 \<and> save_names st' = save_names st1" .
      show ?thesis using step keep kv Inr by auto
    qed
  qed
qed


lemma text_step_keeps:
  "text_step fw split gs r i st = (st', out) \<Longrightarrow> self st' = self st \<and> save_names st' = save_names st"
  by (auto simp: text_step_def split: sum.splits)

lemma text_loop_keeps:
  "text_loop fw split gs r idx st = (st', out) \<Longrightarrow> self st' = self st \<and> save_names st' = save_names st"
proof (induction idx arbitrary: st)
  case Nil
  then show ?case by simp
next
  case (Cons i idx)
  obtain st1 o1 where s1: "text_step fw split gs r i st = (st1, o1)"
    by (cases "text_step fw split gs r i st")
  note keep = text_step_keeps [OF s1]
  show ?case
  proof (cases o1)
    case (Inl err)
    then show ?thesis using Cons.prems s1 keep by simp
  next
    case (Inr u)
    then have "text_loop fw split gs r idx st1 = (st', out)"
      using Cons.prems s1 by simp
    from Cons.IH [OF this] show ?thesis using keep by simp
  qed
qed

lemma log_records_cases:
  assumes "log_records fw e split r lg gs = (st, out)"
  shows "\<exists>st1 o1.
    scalar_loop fw split gs (entries r) \<lparr>self = e, logger = lg, save_names = []\<rparr> = (st1, o1) \<and>
    self st = self st1 \<and> save_names st = save_names st1 \<and>
    (\<forall>names. out = Inr names \<longrightarrow> o1 = Inr () \<and> names = save_names st1)"
proof -
  obtain st1 o1 where
    s1: "scalar_loop fw split gs (entries r) \<lparr>self = e, logger = lg, save_names = []\<rparr> = (st1, o1)"
    by (cases "scalar_loop fw split gs (entries r) \<lparr>self = e, logger = lg, save_names = []\<rparr>")
  have goal: "self st = self st1 \<and> save_names st = save_names st1 \<and>
        (\<forall>names. out = Inr names \<longrightarrow> o1 = Inr () \<and> names = save_names st1)"
  proof (cases o1)
    case (Inl err)
    then show ?thesis using assms s1 by (auto simp: log_records_def)
  next
    case o1: (Inr u)
    show ?thesis
    proof (cases "lookup r ''filename''")
      case (Inl err)
      then show ?thesis using assms s1 o1 by (auto simp: log_records_def)
    next
      case fs: (Inr fs)
      show ?thesis
      proof (cases "text_indices (length fs)")
        case (Inl err)
        then show ?thesis using assms s1 o1 fs by (auto simp: log_records_def)
      next
        case idx: (Inr idx)
        obtain st2 o2 where s2: "text_loop fw split gs r idx st1 = (st2, o2)"
          by (cases "text_loop fw split gs r idx st1")
        note keep = text_loop_keeps [OF s2]
        show ?thesis
        proof (cases o2)
          case (Inl err)
          then show ?thesis using assms s1 o1 fs idx s2 keep by (auto simp: log_records_def)
        next
          case (Inr u2)
          then show ?thesis using assms s1 o1 fs idx s2 keep by (auto simp: log_records_def)
        qed
      qed
    qed
  qed
  then show ?thesis using s1 by blast
qed

text \<open>The definitions that evaluate \<^verbatim>\<open>log_records\<close> on the example configurations.\<close>

lemmas demo_eval =
  log_records_def demo_framework_def demo_expert_def demo_records_def
  scalar_step_def text_step_def text_indices_def py_round_def py_range_def lookup_def getitem_def
  nth_err_def get_task_name_def lower_def lower_char_def save_criterion_def text_entry_def Let_def
  numeral_eq_Suc upt_rec

lemmas demo_wf = well_formed_def cfg_ok_def entry_ok_def texts_ok_def demo_records_def
  demo_expert_def numeral_eq_Suc

lemmas demo_pm = primary_mean_def demo_framework_def demo_expert_def demo_records_def numeral_eq_Suc

text \<open>
  C1. Whatever \<^verbatim>\<open>log_records\<close> does (return or raise), it changes no field of the expert
  but the best score, and it changes the best score only when the split is the first
  evaluation split, the primary metric (the first of \<open>metrics\<close>) has a mean in the records,
  and that mean is strictly greater than the old best score when \<open>metric_higher_better\<close>,
  strictly less otherwise; the new best score is then that mean. When the call returns,
  it returns the one label \<open>split-best.ckpt\<close> in exactly that case and the empty list
  otherwise, so the returned list has at most one entry. The keys of the records are distinct,
  as those of a dictionary are.
\<close>

theorem log_records_best_score:
  assumes "distinct (map fst (entries r))"
      and "log_records fw e split r lg gs = (st, out)"
  shows "(best_score (self st) \<noteq> best_score e \<longrightarrow>
            on_first_split e split \<and>
            primary_mean fw e (entries r) = Some (best_score (self st)) \<and>
            (if metric_higher_better e then best_score e < best_score (self st)
             else best_score (self st) < best_score e))
       \<and> (\<forall>names. out = Inr names \<longrightarrow>
            (case primary_mean fw e (entries r) of
               None \<Rightarrow> names = [] \<and> best_score (self st) = best_score e
             | Some a \<Rightarrow>
                 if on_first_split e split \<and>
                    (if metric_higher_better e then best_score e < a else a < best_score e)
                 then names = [split @ ''-best.ckpt''] \<and> best_score (self st) = a
                 else names = [] \<and> best_score (self st) = best_score e)
            \<and> length names \<le> 1)
       \<and> self st = e\<lparr>best_score := best_score (self st)\<rparr>"
proof -
  from log_records_cases [OF assms(2)] obtain st1 o1 where
    s1: "scalar_loop fw split gs (entries r) \<lparr>self = e, logger = lg, save_names = []\<rparr> = (st1, o1)"
    and same: "self st = self st1" "save_names st = save_names st1"
    and ret: "\<And>names. out = Inr names \<Longrightarrow> o1 = Inr () \<and> names = save_names st1"
    by blast
  have init: "self \<lparr>self = e, logger = lg, save_names = []\<rparr> = e"
    "save_names \<lparr>self = e, logger = lg, save_names = []\<rparr> = []" by simp_all
  from scalar_loop_char [OF s1 assms(1)]
  consider (keep) "self st1 = e" "save_names st1 = []"
      "o1 = Inr () \<longrightarrow> \<not> improves fw e split (entries r)"
    | (upd) a where "improves fw e split (entries r)"
      "primary_mean fw e (entries r) = Some a"
      "self st1 = e\<lparr>best_score := a\<rparr>"
      "save_names st1 = [split @ ''-best.ckpt'']"
    unfolding init by auto
  then show ?thesis
  proof cases
    case keep
    have se: "self st = e" using same keep by simp
    have nm: "names = [] \<and> \<not> improves fw e split (entries r)" if "out = Inr names" for names
      using ret [OF that] keep by simp
    have fr: "e = e\<lparr>best_score := best_score e\<rparr>" by simp
    have c2: "(case primary_mean fw e (entries r) of
               None \<Rightarrow> names = [] \<and> best_score e = best_score e
             | Some a \<Rightarrow>
                 if on_first_split e split \<and>
                    (if metric_higher_better e then best_score e < a else a < best_score e)
                 then names = [split @ ''-best.ckpt''] \<and> best_score e = a
                 else names = [] \<and> best_score e = best_score e)
            \<and> length names \<le> 1" if "out = Inr names" for names
      using nm [OF that] by (auto simp: improves_def beats_def split: option.splits if_splits)
    show ?thesis
      unfolding se using c2 fr by (intro conjI allI impI) simp_all
  next
    case upd
    have se: "self st = e\<lparr>best_score := a\<rparr>" using same upd by simp
    have bs: "best_score (self st) = a" unfolding se by simp
    have nm: "names = [split @ ''-best.ckpt'']" if "out = Inr names" for names
      using ret [OF that] upd by simp
    have cmp: "on_first_split e split"
      "if metric_higher_better e then best_score e < a else a < best_score e"
      using upd(1,2) by (simp_all add: improves_def beats_def)
    have c2: "(case primary_mean fw e (entries r) of
               None \<Rightarrow> names = [] \<and> a = best_score e
             | Some a' \<Rightarrow>
                 if on_first_split e split \<and>
                    (if metric_higher_better e then best_score e < a' else a' < best_score e)
                 then names = [split @ ''-best.ckpt''] \<and> a = a'
                 else names = [] \<and> a = best_score e)
            \<and> length names \<le> 1" if "out = Inr names" for names
      using nm [OF that] cmp upd(2) by simp
    have c1: "on_first_split e split \<and> primary_mean fw e (entries r) = Some a \<and>
            (if metric_higher_better e then best_score e < a else a < best_score e)"
      using cmp upd(2) by simp
    show ?thesis
      unfolding bs using c1 c2 se by (intro conjI allI impI) simp_all
  qed
qed

theorem log_records_best_score_witness:
  "distinct (map fst (entries (demo_records (3 / 4) 5))) \<and>
   (let res = log_records demo_framework (demo_expert True 0) ''dev'' (demo_records (3 / 4) 5) [] 0
    in snd res = Inr [''dev-best.ckpt''] \<and> best_score (self (fst res)) = 3 / 4) \<and>
   (let res = log_records demo_framework (demo_expert True (3 / 4)) ''dev'' (demo_records (3 / 4) 5) [] 0
    in snd res = Inr [] \<and> best_score (self (fst res)) = 3 / 4) \<and>
   (let res = log_records demo_framework (demo_expert True 1) ''dev'' (demo_records (3 / 4) 5) [] 0
    in snd res = Inr [] \<and> best_score (self (fst res)) = 1) \<and>
   (let res = log_records demo_framework (demo_expert False 1) ''dev'' (demo_records (3 / 4) 5) [] 0
    in snd res = Inr [''dev-best.ckpt''] \<and> best_score (self (fst res)) = 3 / 4) \<and>
   (let res = log_records demo_framework (demo_expert False (3 / 4)) ''dev'' (demo_records (3 / 4) 5) [] 0
    in snd res = Inr [] \<and> best_score (self (fst res)) = 3 / 4) \<and>
   (let res = log_records demo_framework (demo_expert False (1 / 2)) ''dev'' (demo_records (3 / 4) 5) [] 0
    in snd res = Inr [] \<and> best_score (self (fst res)) = 1 / 2) \<and>
   (let res = log_records demo_framework (demo_expert True 0) ''test'' (demo_records (3 / 4) 5) [] 0
    in snd res = Inr [] \<and> best_score (self (fst res)) = 0) \<and>
   (let res = log_records demo_framework ((demo_expert True 0)\<lparr>metrics := [''cer'', ''wer'']\<rparr>)
                ''dev'' (demo_records (3 / 4) 5) [] 0
    in snd res = Inr [] \<and> best_score (self (fst res)) = 0)"
proof -
  have d: "distinct (map fst (entries (demo_records (3 / 4) 5)))"
    by (simp add: demo_records_def)
  have pm: "primary_mean demo_framework (demo_expert hb b) (entries (demo_records (3 / 4) 5))
      = Some (3 / 4)" for hb b
    by (simp add: demo_pm)
  have pn: "primary_mean demo_framework ((demo_expert True 0)\<lparr>metrics := [''cer'', ''wer'']\<rparr>)
      (entries (demo_records (3 / 4) 5)) = None"
    by (simp add: demo_pm)
  have fs: "on_first_split (demo_expert hb b) ''dev''" "\<not> on_first_split (demo_expert hb b) ''test''"
    "metric_higher_better (demo_expert hb b) = hb" "best_score (demo_expert hb b) = b" for hb b
    by (simp_all add: on_first_split_def demo_expert_def)
  note th = log_records_best_score [OF d prod.collapse [symmetric], THEN conjunct2, THEN conjunct1,
      rule_format]
  have o1: "snd (log_records demo_framework (demo_expert True 0) ''dev'' (demo_records (3 / 4) 5) [] 0)
      = Inr [''dev-best.ckpt'']" by (simp add: demo_eval)
  have o2: "snd (log_records demo_framework (demo_expert True (3 / 4)) ''dev'' (demo_records (3 / 4) 5) [] 0)
      = Inr []" by (simp add: demo_eval)
  have o3: "snd (log_records demo_framework (demo_expert True 1) ''dev'' (demo_records (3 / 4) 5) [] 0)
      = Inr []" by (simp add: demo_eval)
  have o4: "snd (log_records demo_framework (demo_expert False 1) ''dev'' (demo_records (3 / 4) 5) [] 0)
      = Inr [''dev-best.ckpt'']" by (simp add: demo_eval)
  have o5: "snd (log_records demo_framework (demo_expert False (3 / 4)) ''dev'' (demo_records (3 / 4) 5) [] 0)
      = Inr []" by (simp add: demo_eval)
  have o6: "snd (log_records demo_framework (demo_expert False (1 / 2)) ''dev'' (demo_records (3 / 4) 5) [] 0)
      = Inr []" by (simp add: demo_eval)
  have o7: "snd (log_records demo_framework (demo_expert True 0) ''test'' (demo_records (3 / 4) 5) [] 0)
      = Inr []" by (simp add: demo_eval)
  have o8: "snd (log_records demo_framework ((demo_expert True 0)\<lparr>metrics := [''cer'', ''wer'']\<rparr>)
                ''dev'' (demo_records (3 / 4) 5) [] 0) = Inr []" by (simp add: demo_eval)
  have b1: "best_score (self (fst (log_records demo_framework (demo_expert True 0) ''dev''
      (demo_records (3 / 4) 5) [] 0))) = 3 / 4"
    using th [OF o1] by (simp add: pm fs)
  have b2: "best_score (self (fst (log_records demo_framework (demo_expert True (3 / 4)) ''dev''
      (demo_records (3 / 4) 5) [] 0))) = 3 / 4"
    using th [OF o2] by (simp add: pm fs)
  have b3: "best_score (self (fst (log_records demo_framework (demo_expert True 1) ''dev''
      (demo_records (3 / 4) 5) [] 0))) = 1"
    using th [OF o3] by (simp add: pm fs)
  have b4: "best_score (self (fst (log_records demo_framework (demo_expert False 1) ''dev''
      (demo_records (3 / 4) 5) [] 0))) = 3 / 4"
    using th [OF o4] by (simp add: pm fs)
  have b5: "best_score (self (fst (log_records demo_framework (demo_expert False (3 / 4)) ''dev''
      (demo_records (3 / 4) 5) [] 0))) = 3 / 4"
    using th [OF o5] by (simp add: pm fs)
  have b6: "best_score (self (fst (log_records demo_framework (demo_expert False (1 / 2)) ''dev''
      (demo_records (3 / 4) 5) [] 0))) = 1 / 2"
    using th [OF o6] by (simp add: pm fs)
  have b7: "best_score (self (fst (log_records demo_framework (demo_expert True 0) ''test''
      (demo_records (3 / 4) 5) [] 0))) = 0"
    using th [OF o7] by (simp add: pm fs)
  have b8: "best_score (self (fst (log_records demo_framework
      ((demo_expert True 0)\<lparr>metrics := [''cer'', ''wer'']\<rparr>) ''dev'' (demo_records (3 / 4) 5) [] 0))) = 0"
    using th [OF o8] by (simp add: pn fs)
  show ?thesis
    unfolding Let_def using d o1 o2 o3 o4 o5 o6 o7 o8 b1 b2 b3 b4 b5 b6 b7 b8 by (intro conjI)
qed

subsection \<open>When \<^verbatim>\<open>log_records\<close> returns\<close>

lemma float_tensor_all_num: "list_all is_num vs \<Longrightarrow> \<exists>xs. float_tensor vs = Inr xs"
proof (induction vs)
  case Nil
  then show ?case by simp
next
  case (Cons v vs)
  then obtain xs where "float_tensor vs = Inr xs" by auto
  moreover obtain x where "v = Num x" using Cons.prems by (cases v) auto
  ultimately show ?case by simp
qed

lemma scalar_step_self:
  assumes "scalar_step fw split gs key vals st = (st', out)"
  shows "\<exists>a. self st' = (self st)\<lparr>best_score := a\<rparr>"
proof (cases "metrics (self st) = [] \<or> key \<noteq> hd (metrics (self st))")
  case True
  from scalar_step_other [OF assms True] have "self st' = (self st)\<lparr>best_score := best_score (self st)\<rparr>"
    by simp
  then show ?thesis ..
next
  case False
  then obtain ms where ms: "metrics (self st) = key # ms"
    by (cases "metrics (self st)") auto
  from scalar_step_primary [OF assms ms, of "[]"]
  have "self st' = (self st)\<lparr>best_score := best_score (self st)\<rparr> \<or> (\<exists>a. self st' = (self st)\<lparr>best_score := a\<rparr>)"
    by auto
  then show ?thesis by blast
qed

lemma cfg_ok_best [simp]: "cfg_ok (e\<lparr>best_score := a\<rparr>) = cfg_ok e"
  by (simp add: cfg_ok_def)

lemma scalar_step_returns:
  assumes "cfg_ok (self st)" and "entry_ok (key, vals)"
  shows "\<exists>st'. scalar_step fw split gs key vals st = (st', Inr ())"
proof -
  obtain v vs where vals: "vals = v # vs" using assms(2) by (cases vals) (auto simp: entry_ok_def)
  obtain nm where nm: "corpus_name (corpus_of (self st)) = Some nm"
    and m: "metrics (self st) \<noteq> []" and d: "eval_dataloaders (self st) \<noteq> []"
    using assms(1) by (auto simp: cfg_ok_def)
  obtain m0 ms d0 ds where md: "metrics (self st) = m0 # ms" "eval_dataloaders (self st) = d0 # ds"
    using m d by (meson list.exhaust)
  show ?thesis
  proof (cases "is_num v")
    case False
    then show ?thesis using vals by (simp add: scalar_step_def)
  next
    case True
    then have "list_all is_num vals" using assms(2) vals by (simp add: entry_ok_def)
    then obtain xs where "float_tensor vals = Inr xs" using float_tensor_all_num by blast
    then show ?thesis using vals True nm md
      by (simp add: scalar_step_def get_task_name_def Let_def)
  qed
qed

lemma scalar_loop_returns:
  assumes "cfg_ok (self st)" and "list_all entry_ok es"
  shows "\<exists>st'. scalar_loop fw split gs es st = (st', Inr ())"
  using assms
proof (induction es arbitrary: st)
  case Nil
  then show ?case by simp
next
  case (Cons kv es)
  obtain key vals where kv: "kv = (key, vals)" by (cases kv)
  from Cons.prems kv obtain st1 where s1: "scalar_step fw split gs key vals st = (st1, Inr ())"
    using scalar_step_returns by fastforce
  from scalar_step_self [OF s1] Cons.prems(1) have "cfg_ok (self st1)" by auto
  from Cons.IH [OF this] Cons.prems(2) obtain st' where
    "scalar_loop fw split gs es st1 = (st', Inr ())" by auto
  then show ?case using kv s1 by simp
qed

lemma py_round_div5: "py_round (real n / 5) = int ((n + 2) div 5)"
proof -
  define q m where "q = n div 5" and "m = n mod 5"
  have n: "n = 5 * q + m" and m: "m < 5" by (simp_all add: q_def m_def)
  have fl: "\<lfloor>real n / 5\<rfloor> = int q"
    using floor_divide_of_nat_eq [of n 5] by (simp add: q_def)
  have d: "real n / 5 - real_of_int (int q) = real m / 5" by (simp add: n add_divide_distrib)
  have r: "(n + 2) div 5 = q + (m + 2) div 5" by (simp add: n)
  have pr: "py_round (real n / 5) =
      (if real m / 5 < 1 / 2 then int q
       else if 1 / 2 < real m / 5 then int q + 1
       else if even (int q) then int q else int q + 1)"
    unfolding py_round_def Let_def fl d by (rule refl)
  from m consider "m = 0" | "m = 1" | "m = 2" | "m = 3" | "m = 4" by linarith
  then show ?thesis
    unfolding pr r by cases simp_all
qed

lemma text_indices_eq:
  "text_indices n = (if n \<le> 2 then Inl ValueError else Inr (py_range n ((n + 2) div 5)))"
proof -
  have "(n + 2) div 5 = 0 \<longleftrightarrow> n \<le> 2" by auto
  then show ?thesis by (auto simp: text_indices_def py_round_div5 Let_def)
qed

lemma py_range_bound:
  assumes "0 < s" and "i \<in> set (py_range n s)"
  shows "i < n"
proof -
  from assms(2) obtain k where k: "k < (n + s - 1) div s" and i: "i = k * s"
    by (auto simp: py_range_def)
  from k assms(1) have "(k + 1) * s \<le> n + s - 1"
    by (metis Suc_eq_plus1 Suc_leI less_eq_div_iff_mult_less_eq)
  then show ?thesis using i assms(1) by (simp add: algebra_simps)
qed

lemma length_py_range: "length (py_range n s) = (n + s - 1) div s"
  by (simp add: py_range_def)

lemma stride_count_bounds:
  assumes "5 \<le> (n::nat)"
  defines "s \<equiv> (n + 2) div 5"
  shows "4 \<le> (n + s - 1) div s" and "(n + s - 1) div s \<le> 7"
    and "5 dvd n \<Longrightarrow> (n + s - 1) div s = 5"
proof -
  have s1: "1 \<le> s" using assms(1) by (simp add: s_def)
  have lo: "5 * s \<le> n + 2" and hi: "n + 2 < 5 * s + 5"
    unfolding s_def by (simp_all add: algebra_simps) 
  have "4 * s \<le> n + s - 1" using lo s1 assms(1) by linarith
  then show "4 \<le> (n + s - 1) div s" using s1 by (simp add: less_eq_div_iff_mult_less_eq)
  have "n + s - 1 < 8 * s" using hi s1 by linarith
  then have "(n + s - 1) div s < 8" using s1 by (simp add: div_less_iff_less_mult)
  then show "(n + s - 1) div s \<le> 7" by simp
  assume "5 dvd n"
  then obtain k where k: "n = 5 * k" by auto
  then have sk: "s = k" by (simp add: s_def)
  have "5 * k \<le> n + s - 1" "n + s - 1 < 6 * k" using k sk s1 by simp_all
  then have "5 \<le> (n + s - 1) div k" "(n + s - 1) div k < 6"
    using s1 sk by (simp_all add: less_eq_div_iff_mult_less_eq div_less_iff_less_mult)
  then show "(n + s - 1) div s = 5" using sk by simp
qed


lemma lookup_present: "map_of (entries r) k = Some vs \<Longrightarrow> lookup r k = Inr vs"
  by (simp add: lookup_def getitem_def)

lemma texts_okD:
  assumes "texts_ok r n"
  obtains fs hs gts where "map_of (entries r) ''filename'' = Some fs"
    "map_of (entries r) ''hypothesis'' = Some hs" "map_of (entries r) ''groundtruth'' = Some gts"
    "length fs = n" "n \<le> length hs" "n \<le> length gts"
  using assms by (auto simp: texts_ok_def split: option.splits)

lemma get_task_name_best [simp]: "get_task_name (e\<lparr>best_score := a\<rparr>) = get_task_name e"
  by (simp add: get_task_name_def)

lemma text_step_returns:
  assumes "texts_ok r n" and "i < n" and "get_task_name (self st) = Inr task"
  shows "text_step fw split gs r i st =
    (st\<lparr>logger := logger st @
        [text_entry fw task split gs (stored r ''filename'' ! i) (stored r ''hypothesis'' ! i)
           (stored r ''groundtruth'' ! i)]\<rparr>, Inr ())"
proof -
  from assms(1) obtain fs hs gts where m: "map_of (entries r) ''filename'' = Some fs"
    "map_of (entries r) ''hypothesis'' = Some hs" "map_of (entries r) ''groundtruth'' = Some gts"
    and len: "length fs = n" "n \<le> length hs" "n \<le> length gts"
    by (rule texts_okD)
  have l: "lookup r ''filename'' = Inr fs" "lookup r ''hypothesis'' = Inr hs"
    "lookup r ''groundtruth'' = Inr gts"
    using m by (simp_all add: lookup_present)
  have st: "stored r ''filename'' = fs" "stored r ''hypothesis'' = hs" "stored r ''groundtruth'' = gts"
    using m by (simp_all add: stored_def)
  have nth: "nth_err fs i = Inr (fs ! i)" "nth_err hs i = Inr (hs ! i)" "nth_err gts i = Inr (gts ! i)"
    using len assms(2) by (simp_all add: nth_err_def)
  show ?thesis
    by (simp add: text_step_def l st nth assms(3))
qed

lemma text_loop_returns:
  assumes "texts_ok r n" and "\<forall>i\<in>set idx. i < n" and "get_task_name (self st) = Inr task"
  shows "text_loop fw split gs r idx st =
    (st\<lparr>logger := logger st @
        map (\<lambda>i. text_entry fw task split gs (stored r ''filename'' ! i) (stored r ''hypothesis'' ! i)
           (stored r ''groundtruth'' ! i)) idx\<rparr>, Inr ())"
  using assms(2,3)
proof (induction idx arbitrary: st)
  case Nil
  then show ?case by simp
next
  case (Cons i idx)
  have i: "i < n" using Cons.prems(1) by simp
  note step = text_step_returns [OF assms(1) i Cons.prems(2), of fw split gs]
  let ?st1 = "st\<lparr>logger := logger st @
        [text_entry fw task split gs (stored r ''filename'' ! i) (stored r ''hypothesis'' ! i)
           (stored r ''groundtruth'' ! i)]\<rparr>"
  have "\<forall>i\<in>set idx. i < n" using Cons.prems(1) by simp
  moreover have "get_task_name (self ?st1) = Inr task" using Cons.prems(2) by simp
  ultimately have "text_loop fw split gs r idx ?st1 =
    (?st1\<lparr>logger := logger ?st1 @
        map (\<lambda>i. text_entry fw task split gs (stored r ''filename'' ! i) (stored r ''hypothesis'' ! i)
           (stored r ''groundtruth'' ! i)) idx\<rparr>, Inr ())"
    by (rule Cons.IH)
  then show ?case using step by simp
qed

lemma scalar_step_texts:
  assumes "scalar_step fw split gs key vals st = (st', out)"
  shows "filter is_text (logger st') = filter is_text (logger st)"
  using assms
  by (auto simp: scalar_step_def Let_def split: list.splits if_splits sum.splits)

lemma scalar_loop_texts:
  assumes "scalar_loop fw split gs es st = (st', out)"
  shows "filter is_text (logger st') = filter is_text (logger st)"
  using assms
proof (induction es arbitrary: st)
  case Nil
  then show ?case by simp
next
  case (Cons kv es)
  obtain key vals where kv: "kv = (key, vals)" by (cases kv)
  obtain st1 o1 where s1: "scalar_step fw split gs key vals st = (st1, o1)"
    by (cases "scalar_step fw split gs key vals st")
  note keep = scalar_step_texts [OF s1]
  show ?case
  proof (cases o1)
    case (Inl err)
    then show ?thesis using Cons.prems kv s1 keep by simp
  next
    case (Inr u)
    then have "scalar_loop fw split gs es st1 = (st', out)"
      using Cons.prems kv s1 by simp
    from Cons.IH [OF this] show ?thesis using keep by simp
  qed
qed


lemma log_records_returns:
  assumes wf: "well_formed e r n" and n: "3 \<le> n"
  shows "\<exists>st. log_records fw e split r lg gs =
            (st, Inr (if improves fw e split (entries r) then [split @ ''-best.ckpt''] else []))
      \<and> self st = e\<lparr>best_score :=
            (if improves fw e split (entries r) then the (primary_mean fw e (entries r))
             else best_score e)\<rparr>
      \<and> filter is_text (logger st) =
            filter is_text lg @ sample_entries fw e split gs r (py_range n ((n + 2) div 5))"
proof -
  let ?st0 = "\<lparr>self = e, logger = lg, save_names = []\<rparr>"
  define idx where "idx = py_range n ((n + 2) div 5)"
  from wf have cfg: "cfg_ok e" and ok: "list_all entry_ok (entries r)"
    and dist: "distinct (map fst (entries r))" and tok: "texts_ok r n"
    by (simp_all add: well_formed_def)
  have "cfg_ok (self ?st0)" using cfg by simp
  from scalar_loop_returns [OF this ok] obtain st1 where
    s1: "scalar_loop fw split gs (entries r) ?st0 = (st1, Inr ())" by blast
  have init: "self ?st0 = e" "save_names ?st0 = []" "logger ?st0 = lg" by simp_all
  have t1: "filter is_text (logger st1) = filter is_text lg"
    using scalar_loop_texts [OF s1] by simp
  from scalar_loop_char [OF s1 dist]
  have res1: "self st1 = e\<lparr>best_score :=
            (if improves fw e split (entries r) then the (primary_mean fw e (entries r))
             else best_score e)\<rparr>
      \<and> save_names st1 = (if improves fw e split (entries r) then [split @ ''-best.ckpt''] else [])"
    unfolding init by auto
  obtain nm where nm: "corpus_name (corpus_of e) = Some nm"
    using cfg by (auto simp: cfg_ok_def)
  have task: "get_task_name e = Inr (''ctc-'' @ lower nm)"
    using nm by (simp add: get_task_name_def)
  have task1: "get_task_name (self st1) = Inr (''ctc-'' @ lower nm)"
    using res1 task by simp
  from tok obtain fs where fs: "map_of (entries r) ''filename'' = Some fs" "length fs = n"
    by (rule texts_okD)
  have lk: "lookup r ''filename'' = Inr fs" using fs(1) by (rule lookup_present)
  have ti: "text_indices (length fs) = Inr idx"
    using n fs(2) by (simp add: text_indices_eq idx_def)
  have pos: "0 < (n + 2) div 5" using n by simp
  have bound: "\<forall>i\<in>set idx. i < n" unfolding idx_def using py_range_bound [OF pos] by blast
  note tl = text_loop_returns [OF tok bound task1, of fw split gs]
  let ?st2 = "st1\<lparr>logger := logger st1 @
        map (\<lambda>i. text_entry fw (''ctc-'' @ lower nm) split gs (stored r ''filename'' ! i)
           (stored r ''hypothesis'' ! i) (stored r ''groundtruth'' ! i)) idx\<rparr>"
  have run: "log_records fw e split r lg gs = (?st2, Inr (save_names st1))"
    by (simp add: log_records_def s1 lk ti tl)
  have texts: "filter is_text (logger ?st2) = filter is_text lg @ sample_entries fw e split gs r idx"
    using t1 by (simp add: sample_entries_def task text_entry_def filter_map comp_def)
  have a: "log_records fw e split r lg gs =
      (?st2, Inr (if improves fw e split (entries r) then [split @ ''-best.ckpt''] else []))"
    using run res1 by simp
  have b: "self ?st2 = e\<lparr>best_score :=
            (if improves fw e split (entries r) then the (primary_mean fw e (entries r))
             else best_score e)\<rparr>"
    using res1 by simp
  from a b texts show ?thesis unfolding idx_def by blast
qed

subsection \<open>Best score, stride and samples\<close>

lemma primary_mean_best [simp]: "primary_mean fw (e\<lparr>best_score := a\<rparr>) es = primary_mean fw e es"
  by (simp add: primary_mean_def)

lemma on_first_split_best [simp]: "on_first_split (e\<lparr>best_score := a\<rparr>) split = on_first_split e split"
  by (simp add: on_first_split_def)

lemma well_formed_best [simp]: "well_formed (e\<lparr>best_score := a\<rparr>) r n = well_formed e r n"
  by (simp add: well_formed_def)

text \<open>
  C3. With \<open>metric_higher_better\<close> and a best score of 0, a call of \<^verbatim>\<open>log_records\<close> on the
  first evaluation split whose primary metric has the mean 0.75 returns the one label
  \<open>split-best.ckpt\<close> and sets the best score to 0.75; a following call on the same split
  whose primary metric has the mean 0.60 returns no label and leaves the best score at 0.75.
  Both records are well formed, so that both calls return.
\<close>

theorem first_then_worse_score:
  assumes hb: "metric_higher_better e" and b0: "best_score e = 0"
    and first: "on_first_split e split"
    and wf1: "well_formed e r1 n1" and n1: "3 \<le> n1"
    and m1: "primary_mean fw e (entries r1) = Some (3 / 4)"
    and wf2: "well_formed e r2 n2" and n2: "3 \<le> n2"
    and m2: "primary_mean fw e (entries r2) = Some (6 / 10)"
  shows "\<exists>st1 st2.
      log_records fw e split r1 lg1 gs1 = (st1, Inr [split @ ''-best.ckpt'']) \<and>
      best_score (self st1) = 3 / 4 \<and>
      log_records fw (self st1) split r2 lg2 gs2 = (st2, Inr []) \<and>
      best_score (self st2) = 3 / 4"
proof -
  have i1: "improves fw e split (entries r1)"
    using hb b0 first m1 by (simp add: improves_def beats_def)
  from log_records_returns [OF wf1 n1, of fw split lg1 gs1] i1 m1 obtain st1 where
    c1: "log_records fw e split r1 lg1 gs1 = (st1, Inr [split @ ''-best.ckpt''])"
    and s1: "self st1 = e\<lparr>best_score := 3 / 4\<rparr>"
    by auto
  have i2: "\<not> improves fw (self st1) split (entries r2)"
    using hb m2 by (simp add: s1 improves_def beats_def)
  have wf2': "well_formed (self st1) r2 n2" using wf2 by (simp add: s1)
  from log_records_returns [OF wf2' n2, of fw split lg2 gs2] i2 obtain st2 where
    c2: "log_records fw (self st1) split r2 lg2 gs2 = (st2, Inr [])"
    and s2: "self st2 = (self st1)\<lparr>best_score := best_score (self st1)\<rparr>"
    by auto
  have "best_score (self st1) = 3 / 4" by (simp add: s1)
  moreover have "best_score (self st2) = 3 / 4" by (simp add: s2 s1)
  ultimately show ?thesis using c1 c2 by blast
qed

lemma float_tensor_err: "float_tensor vs = Inl err \<Longrightarrow> err = TypeError"
proof (induction vs arbitrary: err)
  case Nil
  then show ?case by simp
next
  case (Cons v vs)
  then show ?case by (cases v) (auto split: sum.splits)
qed

lemma scalar_step_no_value_error:
  "scalar_step fw split gs key vals st = (st', out) \<Longrightarrow> out \<noteq> Inl ValueError"
  by (auto simp: scalar_step_def get_task_name_def Let_def
      split: list.splits if_splits sum.splits option.splits dest: float_tensor_err)

lemma scalar_loop_no_value_error:
  "scalar_loop fw split gs es st = (st', out) \<Longrightarrow> out \<noteq> Inl ValueError"
proof (induction es arbitrary: st)
  case Nil
  then show ?case by auto
next
  case (Cons kv es)
  obtain key vals where kv: "kv = (key, vals)" by (cases kv)
  obtain st1 o1 where s1: "scalar_step fw split gs key vals st = (st1, o1)"
    by (cases "scalar_step fw split gs key vals st")
  note nv = scalar_step_no_value_error [OF s1]
  show ?case
  proof (cases o1)
    case (Inl err)
    then show ?thesis using Cons.prems kv s1 nv by auto
  next
    case (Inr u)
    then have "scalar_loop fw split gs es st1 = (st', out)"
      using Cons.prems kv s1 by simp
    then show ?thesis by (rule Cons.IH)
  qed
qed

lemma lookup_err: "lookup r k = Inl err \<Longrightarrow> err = KeyError"
  by (auto simp: lookup_def getitem_def split: option.splits if_splits)

lemma text_step_no_value_error:
  "text_step fw split gs r i st = (st', out) \<Longrightarrow> out \<noteq> Inl ValueError"
  by (auto simp: text_step_def get_task_name_def nth_err_def
      split: sum.splits if_splits option.splits dest: lookup_err)

lemma text_loop_no_value_error:
  "text_loop fw split gs r idx st = (st', out) \<Longrightarrow> out \<noteq> Inl ValueError"
proof (induction idx arbitrary: st)
  case Nil
  then show ?case by auto
next
  case (Cons i idx)
  obtain st1 o1 where s1: "text_step fw split gs r i st = (st1, o1)"
    by (cases "text_step fw split gs r i st")
  note nv = text_step_no_value_error [OF s1]
  show ?case
  proof (cases o1)
    case (Inl err)
    then show ?thesis using Cons.prems s1 nv by auto
  next
    case (Inr u)
    then have "text_loop fw split gs r idx st1 = (st', out)"
      using Cons.prems s1 by simp
    then show ?thesis by (rule Cons.IH)
  qed
qed

lemma log_records_value_error_iff:
  "snd (log_records fw e split r lg gs) = Inl ValueError \<longleftrightarrow>
     snd (scalar_loop fw split gs (entries r) \<lparr>self = e, logger = lg, save_names = []\<rparr>) = Inr ()
     \<and> (\<exists>fs. lookup r ''filename'' = Inr fs \<and> length fs \<le> 2)"
proof -
  obtain st1 o1 where
    s1: "scalar_loop fw split gs (entries r) \<lparr>self = e, logger = lg, save_names = []\<rparr> = (st1, o1)"
    by (cases "scalar_loop fw split gs (entries r) \<lparr>self = e, logger = lg, save_names = []\<rparr>")
  note nv1 = scalar_loop_no_value_error [OF s1]
  show ?thesis
  proof (cases o1)
    case (Inl err)
    then show ?thesis using s1 nv1 by (simp add: log_records_def)
  next
    case o1: (Inr u)
    show ?thesis
    proof (cases "lookup r ''filename''")
      case (Inl err)
      then show ?thesis using s1 o1 lookup_err [OF Inl] by (simp add: log_records_def)
    next
      case fs: (Inr fs)
      show ?thesis
      proof (cases "length fs \<le> 2")
        case True
        then show ?thesis using s1 o1 fs by (simp add: log_records_def text_indices_eq)
      next
        case False
        obtain st2 o2 where s2: "text_loop fw split gs r (py_range (length fs) ((length fs + 2) div 5)) st1 = (st2, o2)"
          by (cases "text_loop fw split gs r (py_range (length fs) ((length fs + 2) div 5)) st1")
        note nv2 = text_loop_no_value_error [OF s2]
        have "snd (log_records fw e split r lg gs) \<noteq> Inl ValueError"
          using s1 o1 fs False s2 nv2
          by (cases o2) (simp_all add: log_records_def text_indices_eq del: One_nat_def)
        then show ?thesis using False fs by simp
      qed
    qed
  qed
qed


lemma py_range_one: "py_range n (Suc 0) = [0..<n]"
  by (simp add: py_range_def map_idI)

text \<open>
  C7 (amended). The step of the second loop is \<^verbatim>\<open>round(n / 5)\<close> for \<open>n\<close> filenames, and
  \<^verbatim>\<open>range\<close> raises \<^verbatim>\<open>ValueError\<close> for the step zero (nothing divides by zero).
  \<^verbatim>\<open>log_records\<close> raises \<^verbatim>\<open>ValueError\<close> exactly when the first loop ends without an
  exception and there are at most two filenames. On well-formed records the step is zero
  and the call raises for \<open>n \<le> 2\<close>; for three and four filenames the step is one, the call
  returns and the logger receives one text entry for every sample \<open>0, ..., n - 1\<close>; the call
  returns for every larger number too.
\<close>

theorem zero_stride_error:
  "(snd (log_records fw e split r lg gs) = Inl ValueError \<longleftrightarrow>
      snd (scalar_loop fw split gs (entries r) \<lparr>self = e, logger = lg, save_names = []\<rparr>) = Inr ()
      \<and> (\<exists>fs. lookup r ''filename'' = Inr fs \<and> length fs \<le> 2))
   \<and> (well_formed e r n \<longrightarrow>
        (if n \<le> 2
         then py_round (real n / 5) = 0 \<and>
              snd (log_records fw e split r lg gs) = Inl ValueError
         else \<exists>st names. log_records fw e split r lg gs = (st, Inr names) \<and>
              (n \<le> 4 \<longrightarrow>
                 py_round (real n / 5) = 1 \<and>
                 filter is_text (logger st) =
                   filter is_text lg @ sample_entries fw e split gs r [0..<n] \<and>
                 length (sample_entries fw e split gs r [0..<n]) = n)))"
proof (intro conjI impI)
  show "snd (log_records fw e split r lg gs) = Inl ValueError \<longleftrightarrow>
      snd (scalar_loop fw split gs (entries r) \<lparr>self = e, logger = lg, save_names = []\<rparr>) = Inr ()
      \<and> (\<exists>fs. lookup r ''filename'' = Inr fs \<and> length fs \<le> 2)"
    by (rule log_records_value_error_iff)
next
  assume wf: "well_formed e r n"
  show "if n \<le> 2
         then py_round (real n / 5) = 0 \<and>
              snd (log_records fw e split r lg gs) = Inl ValueError
         else \<exists>st names. log_records fw e split r lg gs = (st, Inr names) \<and>
              (n \<le> 4 \<longrightarrow>
                 py_round (real n / 5) = 1 \<and>
                 filter is_text (logger st) =
                   filter is_text lg @ sample_entries fw e split gs r [0..<n] \<and>
                 length (sample_entries fw e split gs r [0..<n]) = n)"
  proof (cases "n \<le> 2")
    case True
    from wf have cfg: "cfg_ok e" and ok: "list_all entry_ok (entries r)" and tok: "texts_ok r n"
      by (simp_all add: well_formed_def)
    have "cfg_ok (self \<lparr>self = e, logger = lg, save_names = []\<rparr>)" using cfg by simp
    from scalar_loop_returns [OF this ok] obtain st1 where
      "scalar_loop fw split gs (entries r) \<lparr>self = e, logger = lg, save_names = []\<rparr> = (st1, Inr ())"
      by blast
    then have a: "snd (scalar_loop fw split gs (entries r) \<lparr>self = e, logger = lg, save_names = []\<rparr>) = Inr ()"
      by simp
    from tok obtain fs where "map_of (entries r) ''filename'' = Some fs" "length fs = n"
      by (rule texts_okD)
    then have "lookup r ''filename'' = Inr fs \<and> length fs \<le> 2"
      using True by (simp add: lookup_present)
    with a have err: "snd (log_records fw e split r lg gs) = Inl ValueError"
      unfolding log_records_value_error_iff by blast
    have "(n + 2) div 5 = 0" using True by simp
    then have "py_round (real n / 5) = 0" by (simp only: py_round_div5 of_nat_0)
    with err show ?thesis using True by simp
  next
    case False
    then have n3: "3 \<le> n" by simp
    from wf have "cfg_ok e" by (simp add: well_formed_def)
    then obtain task where task: "get_task_name e = Inr task"
      by (auto simp: cfg_ok_def get_task_name_def)
    have len: "length (sample_entries fw e split gs r [0..<n]) = n"
      by (simp add: sample_entries_def task)
    from log_records_returns [OF wf n3, of fw split lg gs] obtain st names where
      run: "log_records fw e split r lg gs = (st, Inr names)"
      and tx: "filter is_text (logger st) = filter is_text lg @
            sample_entries fw e split gs r (py_range n ((n + 2) div 5))"
      by blast
    have small: "py_round (real n / 5) = 1 \<and>
                 filter is_text (logger st) =
                   filter is_text lg @ sample_entries fw e split gs r [0..<n] \<and>
                 length (sample_entries fw e split gs r [0..<n]) = n" if "n \<le> 4"
    proof -
      have s: "(n + 2) div 5 = Suc 0" using n3 that by simp
      have "py_round (real n / 5) = 1" unfolding py_round_div5 s by simp
      moreover have "filter is_text (logger st) =
                   filter is_text lg @ sample_entries fw e split gs r [0..<n]"
        using tx unfolding s py_range_one .
      ultimately show ?thesis using len by simp
    qed
    have "\<exists>st names. log_records fw e split r lg gs = (st, Inr names) \<and>
              (n \<le> 4 \<longrightarrow>
                 py_round (real n / 5) = 1 \<and>
                 filter is_text (logger st) =
                   filter is_text lg @ sample_entries fw e split gs r [0..<n] \<and>
                 length (sample_entries fw e split gs r [0..<n]) = n)"
      using run small by blast
    then show ?thesis using False by simp
  qed
qed

text \<open>
  C6 (amended). On well-formed records with \<open>n \<ge> 5\<close> samples \<^verbatim>\<open>log_records\<close> returns and
  adds to the logger one text entry (filename, hypothesis, groundtruth) for each index
  \<open>0, s, 2 s, ...\<close> below \<open>n\<close>, where the stride \<open>s\<close> is \<^verbatim>\<open>round(n / 5)\<close>. These are between
  four and seven entries, and exactly five when \<open>n\<close> is a multiple of five.
\<close>

theorem text_samples_count:
  assumes wf: "well_formed e r n" and n: "5 \<le> n"
  shows "\<exists>st names. log_records fw e split r lg gs = (st, Inr names)
      \<and> filter is_text (logger st) = filter is_text lg @
            sample_entries fw e split gs r (py_range n (nat (py_round (real n / 5))))
      \<and> length (sample_entries fw e split gs r (py_range n (nat (py_round (real n / 5)))))
            = length (py_range n (nat (py_round (real n / 5))))
      \<and> 4 \<le> length (py_range n (nat (py_round (real n / 5))))
      \<and> length (py_range n (nat (py_round (real n / 5)))) \<le> 7
      \<and> (5 dvd n \<longrightarrow> length (py_range n (nat (py_round (real n / 5)))) = 5)"
proof -
  have s: "nat (py_round (real n / 5)) = (n + 2) div 5" by (simp add: py_round_div5)
  from n have n3: "3 \<le> n" by simp
  from wf have "cfg_ok e" by (simp add: well_formed_def)
  then obtain task where task: "get_task_name e = Inr task"
    by (auto simp: cfg_ok_def get_task_name_def)
  have len: "length (sample_entries fw e split gs r (py_range n ((n + 2) div 5)))
      = length (py_range n ((n + 2) div 5))"
    by (simp add: sample_entries_def task)
  from log_records_returns [OF wf n3, of fw split lg gs] obtain st names where
    run: "log_records fw e split r lg gs = (st, Inr names)"
    and tx: "filter is_text (logger st) = filter is_text lg @
            sample_entries fw e split gs r (py_range n ((n + 2) div 5))"
    by blast
  note b = stride_count_bounds [OF n]
  show ?thesis
    unfolding s length_py_range [of n "(n + 2) div 5"] len [unfolded length_py_range]
    using run tx b by blast
qed

subsection \<open>Instances on the example configuration\<close>

theorem first_then_worse_score_witness:
  "metric_higher_better (demo_expert True 0) \<and> best_score (demo_expert True 0) = 0 \<and>
   on_first_split (demo_expert True 0) ''dev'' \<and>
   well_formed (demo_expert True 0) (demo_records (3 / 4) 5) 5 \<and>
   well_formed (demo_expert True 0) (demo_records (6 / 10) 5) 5 \<and>
   (\<exists>st1 st2.
      log_records demo_framework (demo_expert True 0) ''dev'' (demo_records (3 / 4) 5) [] 1
        = (st1, Inr [''dev-best.ckpt'']) \<and>
      best_score (self st1) = 3 / 4 \<and>
      log_records demo_framework (self st1) ''dev'' (demo_records (6 / 10) 5) [] 2 = (st2, Inr []) \<and>
      best_score (self st2) = 3 / 4)"
proof -
  have hb: "metric_higher_better (demo_expert True 0)" and b0: "best_score (demo_expert True 0) = 0"
    and first: "on_first_split (demo_expert True 0) ''dev''"
    by (simp_all add: demo_expert_def on_first_split_def)
  have wf1: "well_formed (demo_expert True 0) (demo_records (3 / 4) 5) 5"
    and wf2: "well_formed (demo_expert True 0) (demo_records (6 / 10) 5) 5"
    by (simp_all add: demo_wf)
  have n: "3 \<le> (5::nat)" by simp
  have m1: "primary_mean demo_framework (demo_expert True 0) (entries (demo_records (3 / 4) 5)) = Some (3 / 4)"
    and m2: "primary_mean demo_framework (demo_expert True 0) (entries (demo_records (6 / 10) 5)) = Some (6 / 10)"
    by (simp_all add: demo_pm)
  from first_then_worse_score [OF hb b0 first wf1 n m1 wf2 n m2, of "[]" 1 "[]" 2]
  show ?thesis using hb b0 first wf1 wf2 by simp
qed

theorem zero_stride_error_witness:
  "well_formed (demo_expert True 0) (demo_records (3 / 4) 2) 2 \<and>
   snd (log_records demo_framework (demo_expert True 0) ''dev'' (demo_records (3 / 4) 2) [] 0)
     = Inl ValueError \<and>
   well_formed (demo_expert True 0) (demo_records (3 / 4) 3) 3 \<and>
   (\<exists>st names. log_records demo_framework (demo_expert True 0) ''dev'' (demo_records (3 / 4) 3) [] 0
       = (st, Inr names) \<and> length (filter is_text (logger st)) = 3) \<and>
   well_formed (demo_expert True 0) (demo_records (3 / 4) 4) 4 \<and>
   (\<exists>st names. log_records demo_framework (demo_expert True 0) ''dev'' (demo_records (3 / 4) 4) [] 0
       = (st, Inr names) \<and> length (filter is_text (logger st)) = 4)"
proof -
  have wf2: "well_formed (demo_expert True 0) (demo_records (3 / 4) 2) 2"
    and wf3: "well_formed (demo_expert True 0) (demo_records (3 / 4) 3) 3"
    and wf4: "well_formed (demo_expert True 0) (demo_records (3 / 4) 4) 4"
    by (simp_all add: demo_wf)
  note th = zero_stride_error [THEN conjunct2, rule_format, of _ _ _ demo_framework "''dev''" "[]" 0]
  from th [OF wf2]
  have a: "snd (log_records demo_framework (demo_expert True 0) ''dev'' (demo_records (3 / 4) 2) [] 0)
     = Inl ValueError" by simp
  from th [OF wf3]
  have b: "\<exists>st names. log_records demo_framework (demo_expert True 0) ''dev'' (demo_records (3 / 4) 3) [] 0
       = (st, Inr names) \<and> length (filter is_text (logger st)) = 3"
    by (simp del: upt_Suc) (metis length_append list.size(3) add_0 filter.simps(1))
  from th [OF wf4]
  have c: "\<exists>st names. log_records demo_framework (demo_expert True 0) ''dev'' (demo_records (3 / 4) 4) [] 0
       = (st, Inr names) \<and> length (filter is_text (logger st)) = 4"
    by (simp del: upt_Suc) (metis length_append list.size(3) add_0 filter.simps(1))
  from wf2 a wf3 b wf4 c show ?thesis by (intro conjI)
qed

theorem zero_stride_error_counterexample:
  "length (stored (demo_records (3 / 4) 3) ''filename'') < 5 \<and>
   snd (log_records demo_framework (demo_expert True 0) ''dev'' (demo_records (3 / 4) 3) [] 0)
     = Inr [''dev-best.ckpt''] \<and>
   length (filter is_text (logger (fst
     (log_records demo_framework (demo_expert True 0) ''dev'' (demo_records (3 / 4) 3) [] 0)))) = 3"
  by (simp add: demo_eval stored_def)

theorem text_samples_count_witness:
  "well_formed (demo_expert True 0) (demo_records (3 / 4) 10) 10 \<and> (5::nat) \<le> 10 \<and>
   length (py_range 10 (nat (py_round (real 10 / 5)))) = 5 \<and>
   (\<exists>st names. log_records demo_framework (demo_expert True 0) ''dev'' (demo_records (3 / 4) 10) [] 0
       = (st, Inr names))"
proof -
  have wf: "well_formed (demo_expert True 0) (demo_records (3 / 4) 10) 10"
    by (simp add: demo_wf)
  have n: "(5::nat) \<le> 10" by simp
  from text_samples_count [OF wf n, of demo_framework "''dev''" "[]" 0]
  show ?thesis using wf by auto
qed

theorem text_samples_count_counterexample:
  "5 \<le> length (stored (demo_records (3 / 4) 6) ''filename'') \<and>
   length (filter is_text (logger (fst
     (log_records demo_framework (demo_expert True 0) ''dev'' (demo_records (3 / 4) 6) [] 0)))) = 6"
  by (simp add: demo_eval stored_def)

subsection \<open>The constructor\<close>

lemma init_best:
  assumes "init fw ud ur runner cfg = Inr e"
  shows "best_score e = initial_best_score (metric_higher_better e)"
  using assms
  by (auto simp: init_def split: option.splits sum.splits pyobj.splits)

lemma init_metrics:
  assumes "init fw ud ur runner cfg = Inr e"
  shows "cfg_metric cfg = Some (metrics e)"
  using assms
  by (auto simp: init_def split: option.splits sum.splits pyobj.splits)




lemma demo_init:
  "init demo_framework 2 1 demo_runner (demo_cfg ''RNNs'' ms hb) =
     Inr ((demo_expert hb (initial_best_score hb))\<lparr>metrics := ms\<rparr>)"
  by (simp add: init_def demo_framework_def demo_runner_def demo_cfg_def demo_expert_def
      modelrc_block_def demo_tokenizer_def demo_model_class_def)

lemma demo_expert_metrics [simp]: "(demo_expert hb b)\<lparr>metrics := [''wer'']\<rparr> = demo_expert hb b"
  by (simp add: demo_expert_def)




text \<open>
  C2 (amended). The constructed expert has the best score 0 when \<open>metric_higher_better\<close>
  and \<open>2 ^ 31 = 2147483648\<close> otherwise. A first call of \<^verbatim>\<open>log_records\<close> on the first
  evaluation split, on well-formed records whose primary metric has the mean \<open>a\<close>, returns
  the label \<open>split-best.ckpt\<close> exactly when \<open>0 < a\<close>, respectively \<open>a < 2147483648\<close>.
\<close>

theorem init_best_score:
  assumes "init fw ud ur runner cfg = Inr e"
  shows "best_score e = (if metric_higher_better e then 0 else 2147483648)
    \<and> (on_first_split e split \<longrightarrow> well_formed e r n \<longrightarrow> 3 \<le> n \<longrightarrow>
        primary_mean fw e (entries r) = Some a \<longrightarrow>
        (\<exists>st. log_records fw e split r lg gs =
           (st, Inr (if (if metric_higher_better e then 0 < a else a < 2147483648)
                     then [split @ ''-best.ckpt''] else []))))"
proof (intro conjI impI)
  show b: "best_score e = (if metric_higher_better e then 0 else 2147483648)"
    using init_best [OF assms] by (simp add: initial_best_score_def)
  assume first: "on_first_split e split" and wf: "well_formed e r n" and n: "3 \<le> n"
    and m: "primary_mean fw e (entries r) = Some a"
  have "improves fw e split (entries r) \<longleftrightarrow>
      (if metric_higher_better e then 0 < a else a < 2147483648)"
    using first m b by (simp add: improves_def beats_def)
  with log_records_returns [OF wf n, of fw split lg gs]
  show "\<exists>st. log_records fw e split r lg gs =
           (st, Inr (if (if metric_higher_better e then 0 < a else a < 2147483648)
                     then [split @ ''-best.ckpt''] else []))"
    by auto
qed

theorem init_best_score_witness:
  "init demo_framework 2 1 demo_runner (demo_cfg ''RNNs'' [''wer''] False) = Inr (demo_expert False 2147483648) \<and>
   on_first_split (demo_expert False 2147483648) ''dev'' \<and>
   well_formed (demo_expert False 2147483648) (demo_records (3 / 4) 5) 5 \<and>
   (\<exists>st. log_records demo_framework (demo_expert False 2147483648) ''dev'' (demo_records (3 / 4) 5) [] 0
      = (st, Inr [''dev-best.ckpt'']))"
proof -
  have i: "init demo_framework 2 1 demo_runner (demo_cfg ''RNNs'' [''wer''] False) = Inr (demo_expert False 2147483648)"
    using demo_init [of "[''wer'']" False] by (simp add: initial_best_score_def)
  have first: "on_first_split (demo_expert False 2147483648) ''dev''"
    by (simp add: demo_expert_def on_first_split_def)
  have wf: "well_formed (demo_expert False 2147483648) (demo_records (3 / 4) 5) 5"
    by (simp add: demo_wf)
  have m: "primary_mean demo_framework (demo_expert False 2147483648) (entries (demo_records (3 / 4) 5))
      = Some (3 / 4)"
    by (simp add: demo_pm)
  have hb: "\<not> metric_higher_better (demo_expert False 2147483648)" by (simp add: demo_expert_def)
  from init_best_score [OF i, THEN conjunct2, rule_format, OF first wf _ m, of "[]" 0] hb
  have "\<exists>st. log_records demo_framework (demo_expert False 2147483648) ''dev'' (demo_records (3 / 4) 5) [] 0
      = (st, Inr [''dev-best.ckpt''])" by simp
  with i first wf show ?thesis by simp
qed

theorem init_best_score_counterexample:
  "init demo_framework 2 1 demo_runner (demo_cfg ''RNNs'' [''wer''] False) = Inr (demo_expert False 2147483648) \<and>
   snd (log_records demo_framework (demo_expert False 2147483648) ''dev''
          (demo_records 3000000000 5) [] 0) = Inr []"
proof -
  have "init demo_framework 2 1 demo_runner (demo_cfg ''RNNs'' [''wer''] False) = Inr (demo_expert False 2147483648)"
    using demo_init [of "[''wer'']" False] by (simp add: initial_best_score_def)
  moreover have "snd (log_records demo_framework (demo_expert False 2147483648) ''dev''
          (demo_records 3000000000 5) [] 0) = Inr []"
    by (simp add: demo_eval)
  ultimately show ?thesis by simp
qed

end
